theory Spec2Isabelle
  imports Main
begin

section \<open>Data model of pathfinding\_sdf\_enhanced.c\<close>

text \<open>
  The C structs become records. The fields \<open>x\<close> and \<open>y\<close> of both structs are
  named \<open>nx\<close>, \<open>ny\<close> (node) and \<open>ox\<close>, \<open>oy\<close> (offset), so that they do
  not capture the variables of the theorems. A C \<open>int\<close> is modelled as a mathematical
  integer: the results below are about runs in which no signed overflow happens.
\<close>

record PathfindingNode =
  nx :: int
  ny :: int
  fromX :: int
  fromY :: int
  score :: int

record NeighborOffset =
  ox :: int
  oy :: int
  distance :: int

definition gridWidth :: int where
  "gridWidth = 80"

definition gridHeight :: int where
  "gridHeight = 45"

text \<open>
  The arrays \<open>blockedCells\<close>, \<open>sdfCells\<close>, \<open>map\<close> and \<open>queue\<close> all have
  \<open>gridWidth * gridHeight\<close> elements; they are modelled as functions from the index,
  and every access whose index is not guarded by the source is checked against
  \<open>validIndex\<close>.
\<close>

definition validIndex :: "int \<Rightarrow> bool" where
  "validIndex i \<longleftrightarrow> 0 \<le> i \<and> i < gridWidth * gridHeight"

datatype error = OutOfBounds

text \<open>C's integer division truncates towards zero.\<close>

definition c_div :: "int \<Rightarrow> int \<Rightarrow> int" where
  "c_div a b = sgn a * sgn b * (\<bar>a\<bar> div \<bar>b\<bar>)"

subsection \<open>The square root table and the neighbor offsets\<close>

text \<open>
  \<open>isqrt[i] = (int)ceilf(sqrtf(i))\<close> for \<open>0 \<le> i < 256\<close>: the least \<open>k\<close> with
  \<open>i \<le> k * k\<close>. The search runs downwards from 16, which is the value at 255.
\<close>

fun ceilSqrt :: "nat \<Rightarrow> nat \<Rightarrow> nat" where
  "ceilSqrt 0 n = 0"
| "ceilSqrt (Suc k) n = (if k * k < n then Suc k else ceilSqrt k n)"

definition isqrt :: "int \<Rightarrow> int" where
  "isqrt i = int (ceilSqrt 16 (nat i))"

definition offsetsOfColumn :: "int \<Rightarrow> NeighborOffset list" where
  "offsetsOfColumn x =
     concat (map (\<lambda>y. let d = isqrt (x * x + y * y)
                      in if d \<le> 10 \<and> d > 0 then [\<lparr>ox = x, oy = y, distance = d\<rparr>] else [])
                 [-10..10])"

definition neighborOffsets :: "NeighborOffset list" where
  "neighborOffsets = concat (map offsetsOfColumn [-10..10])"

subsection \<open>The clearance field of main\<close>

text \<open>
  \<open>sdfFunction\<close> selects the metric: 0 euclidean (through the table), 1 chebyshev,
  2 manhattan; any other value leaves \<open>d = 0\<close>.
\<close>

definition sdfDistance :: "int \<Rightarrow> int \<Rightarrow> int \<Rightarrow> int" where
  "sdfDistance sdfFunction dx dy =
     (if sdfFunction = 0 then isqrt (dx * dx + dy * dy)
      else if sdfFunction = 1 then (if \<bar>dx\<bar> < \<bar>dy\<bar> then \<bar>dy\<bar> else \<bar>dx\<bar>)
      else if sdfFunction = 2 then \<bar>dx\<bar> + \<bar>dy\<bar>
      else 0)"

text \<open>The body of the two innermost loops: cell \<open>(i, j)\<close> seen from the wall \<open>(x, y)\<close>.\<close>

definition splatCell :: "int \<Rightarrow> int \<Rightarrow> int \<Rightarrow> int \<Rightarrow> (int \<Rightarrow> int) \<Rightarrow> int \<Rightarrow> (int \<Rightarrow> int)" where
  "splatCell sdfFunction x y j sdf i =
     (let dx = x - i; dy = y - j; d = sdfDistance sdfFunction dx dy
      in if d < sdf (j * gridWidth + i) \<and> d < 10 then sdf(j * gridWidth + i := d) else sdf)"

definition splatRow :: "int \<Rightarrow> int \<Rightarrow> int \<Rightarrow> int \<Rightarrow> int \<Rightarrow> (int \<Rightarrow> int) \<Rightarrow> int \<Rightarrow> (int \<Rightarrow> int)" where
  "splatRow sdfFunction x y minX maxX sdf j = foldl (splatCell sdfFunction x y j) sdf [minX..maxX]"

text \<open>The body of the loop over \<open>x\<close>: a blocked cell is set to 0 and splatted on its window.\<close>

definition updateCell :: "(int \<Rightarrow> int) \<Rightarrow> int \<Rightarrow> int \<Rightarrow> (int \<Rightarrow> int) \<Rightarrow> int \<Rightarrow> (int \<Rightarrow> int)" where
  "updateCell blockedCells sdfFunction y sdf x =
     (if blockedCells (y * gridWidth + x) = 1 then
        (let sdf0 = sdf(y * gridWidth + x := 0);
             minX = (if x - 10 < 0 then 0 else x - 10);
             minY = (if y - 10 < 0 then 0 else y - 10);
             maxX = (if x + 10 \<ge> gridWidth then gridWidth - 1 else x + 10);
             maxY = (if y + 10 \<ge> gridHeight then gridHeight - 1 else y + 10)
         in foldl (splatRow sdfFunction x y minX maxX) sdf0 [minY..maxY])
      else sdf)"

definition updateRow :: "(int \<Rightarrow> int) \<Rightarrow> int \<Rightarrow> (int \<Rightarrow> int) \<Rightarrow> int \<Rightarrow> (int \<Rightarrow> int)" where
  "updateRow blockedCells sdfFunction sdf y =
     foldl (updateCell blockedCells sdfFunction y) sdf [0..gridWidth - 1]"

text \<open>
  The whole rebuild: every cell of the array is set to 10, then the rows are visited.
  Outside the array the old contents stay.
\<close>

definition updateSdf :: "(int \<Rightarrow> int) \<Rightarrow> int \<Rightarrow> (int \<Rightarrow> int) \<Rightarrow> (int \<Rightarrow> int)" where
  "updateSdf blockedCells sdfFunction sdfCells =
     foldl (updateRow blockedCells sdfFunction)
           (\<lambda>i. if validIndex i then 10 else sdfCells i) [0..gridHeight - 1]"

subsection \<open>FindPath\<close>

text \<open>
  The state of the search loop: the first \<open>queueLength\<close> elements of \<open>queue\<close> as a
  list, the \<open>map\<close> array, and whether \<open>TraceLog(LOG_ERROR, "queue overflow")\<close> was
  called.
\<close>

record SearchState =
  queue :: "PathfindingNode list"
  nodeMap :: "int \<Rightarrow> PathfindingNode"
  overflowLogged :: bool

text \<open>The scan for the node with the lowest score: the first minimum wins.\<close>

definition lowestScoreIndex :: "PathfindingNode list \<Rightarrow> nat" where
  "lowestScoreIndex q =
     foldl (\<lambda>l i. if score (q ! i) < score (q ! l) then i else l) 0 [1..<length q]"

text \<open>The elements behind the dequeued one move one place to the front.\<close>

definition dequeueAt :: "nat \<Rightarrow> PathfindingNode list \<Rightarrow> PathfindingNode list" where
  "dequeueAt l q = take l q @ drop (Suc l) q"

text \<open>
  One pass of the loop over the neighbor offsets. \<open>queue[queueLength]\<close> is written
  before the overflow test, so the write is checked; after it the length is clamped to
  \<open>gridWidth * gridHeight - 1\<close>, which drops the element just written.
\<close>

definition visitOffset ::
  "(int \<Rightarrow> int) \<Rightarrow> int \<Rightarrow> int \<Rightarrow> int \<Rightarrow> PathfindingNode \<Rightarrow> int \<Rightarrow> int \<Rightarrow>
   SearchState \<Rightarrow> NeighborOffset \<Rightarrow> error + SearchState" where
  "visitOffset sdfCells unitSize sdfFactor enableJumping node cellSdf maxDistance st off =
     (let stepDistance = distance off in
      if stepDistance > maxDistance \<or> (enableJumping = 0 \<and> stepDistance > 1) then Inr st
      else
        let x = nx node + ox off; y = ny node + oy off in
        if x < 0 \<or> x \<ge> gridWidth \<or> y < 0 \<or> y \<ge> gridHeight then Inr st
        else if \<not> validIndex (y * gridWidth + x) then Inl OutOfBounds
        else
          let nextSdf = sdfCells (y * gridWidth + x) in
          if nextSdf < unitSize then Inr st
          else
            let score0 = score node + stepDistance;
                sdfValue = sdfCells (y * gridWidth + x);
                integratedSdfValue = c_div ((sdfValue + cellSdf) * (stepDistance + 1)) 2;
                score1 = score0 + c_div (integratedSdfValue * sdfFactor) 6
            in
            if score (nodeMap st (y * gridWidth + x)) = 0
               \<or> score1 < score (nodeMap st (y * gridWidth + x)) then
              (let cell = \<lparr>nx = x, ny = y, fromX = nx node, fromY = ny node, score = score1\<rparr>;
                   m = (nodeMap st)(y * gridWidth + x := cell)
               in if \<not> validIndex (int (length (queue st))) then Inl OutOfBounds
                  else
                    let q = queue st @ [m (y * gridWidth + x)] in
                    if int (length q) \<ge> gridWidth * gridHeight
                    then Inr \<lparr>queue = take (nat (gridWidth * gridHeight - 1)) q, nodeMap = m,
                              overflowLogged = True\<rparr>
                    else Inr (st\<lparr>queue := q, nodeMap := m\<rparr>))
            else Inr st)"

fun visitOffsets ::
  "(int \<Rightarrow> int) \<Rightarrow> int \<Rightarrow> int \<Rightarrow> int \<Rightarrow> PathfindingNode \<Rightarrow> int \<Rightarrow> int \<Rightarrow>
   SearchState \<Rightarrow> NeighborOffset list \<Rightarrow> error + SearchState" where
  "visitOffsets sdfCells unitSize sdfFactor enableJumping node cellSdf maxDistance st [] = Inr st"
| "visitOffsets sdfCells unitSize sdfFactor enableJumping node cellSdf maxDistance st (off # offs) =
     (case visitOffset sdfCells unitSize sdfFactor enableJumping node cellSdf maxDistance st off of
        Inl e \<Rightarrow> Inl e
      | Inr st' \<Rightarrow>
          visitOffsets sdfCells unitSize sdfFactor enableJumping node cellSdf maxDistance st' offs)"

text \<open>One iteration of the \<open>while (queueLength > 0)\<close> loop.\<close>

definition expandLowest ::
  "(int \<Rightarrow> int) \<Rightarrow> int \<Rightarrow> int \<Rightarrow> int \<Rightarrow> SearchState \<Rightarrow> error + SearchState" where
  "expandLowest sdfCells unitSize sdfFactor enableJumping st =
     (let l = lowestScoreIndex (queue st);
          node = queue st ! l;
          st1 = st\<lparr>queue := dequeueAt l (queue st)\<rparr>
      in if \<not> validIndex (ny node * gridWidth + nx node) then Inl OutOfBounds
         else
           let cellSdf = sdfCells (ny node * gridWidth + nx node);
               maxDistance = (if cellSdf - unitSize < 1 then 1 else cellSdf - unitSize)
           in visitOffsets sdfCells unitSize sdfFactor enableJumping node cellSdf maxDistance
                st1 neighborOffsets)"

text \<open>The loop may run forever: \<open>None\<close> is the run that does not return.\<close>

partial_function (option) searchLoop ::
  "(int \<Rightarrow> int) \<Rightarrow> int \<Rightarrow> int \<Rightarrow> int \<Rightarrow> SearchState \<Rightarrow> (error + SearchState) option" where
  "searchLoop sdfCells unitSize sdfFactor enableJumping st =
     (if queue st = [] then Some (Inr st)
      else case expandLowest sdfCells unitSize sdfFactor enableJumping st of
             Inl e \<Rightarrow> Some (Inl e)
           | Inr st' \<Rightarrow> searchLoop sdfCells unitSize sdfFactor enableJumping st')"

text \<open>
  The reconstruction loop, bounded by \<open>length < gridWidth * gridHeight\<close>. The list is
  \<open>path[0 .. length - 1]\<close>.
\<close>

function followFrom ::
  "(int \<Rightarrow> PathfindingNode) \<Rightarrow> int \<Rightarrow> int \<Rightarrow> int \<Rightarrow> int \<Rightarrow> PathfindingNode list \<Rightarrow>
   error + (PathfindingNode list)" where
  "followFrom m startX startY x y path =
     (if \<not> validIndex (y * gridWidth + x) then Inl OutOfBounds
      else if score (m (y * gridWidth + x)) > 0 \<and> (x \<noteq> startX \<or> y \<noteq> startY)
              \<and> int (length path) < gridWidth * gridHeight
      then followFrom m startX startY (fromX (m (y * gridWidth + x))) (fromY (m (y * gridWidth + x)))
             (path @ [m (y * gridWidth + x)])
      else Inr path)"
  by pat_completeness auto
termination
  by (relation "measure (\<lambda>(m, startX, startY, x, y, path). nat (gridWidth * gridHeight) - length path)")
     auto

text \<open>
  What FindPath leaves behind: the \<open>map\<close> array, \<open>path[0 .. *pathLength - 1]\<close>,
  \<open>*pathLength\<close>, and whether the overflow was logged. When no path is found the
  \<open>path\<close> array is not written and \<open>*pathLength\<close> is 0.
\<close>

record SearchResult =
  resultMap :: "int \<Rightarrow> PathfindingNode"
  resultPath :: "PathfindingNode list"
  pathLength :: int
  resultOverflow :: bool

definition initialState :: "(int \<Rightarrow> PathfindingNode) \<Rightarrow> int \<Rightarrow> int \<Rightarrow> SearchState" where
  "initialState m startX startY =
     \<lparr>queue = [\<lparr>nx = startX, ny = startY, fromX = startX, fromY = startY, score = 1\<rparr>],
      nodeMap = (\<lambda>i. if validIndex i then (m i)\<lparr>score := 0\<rparr> else m i)
                  (startY * gridWidth + startX :=
                     \<lparr>nx = startX, ny = startY, fromX = -1, fromY = -1, score = 1\<rparr>),
      overflowLogged = False\<rparr>"

definition reconstruct ::
  "SearchState \<Rightarrow> int \<Rightarrow> int \<Rightarrow> int \<Rightarrow> int \<Rightarrow> error + SearchResult" where
  "reconstruct st toX toY startX startY =
     (if \<not> validIndex (toY * gridWidth + toX) then Inl OutOfBounds
      else if score (nodeMap st (toY * gridWidth + toX)) > 0 then
        (case followFrom (nodeMap st) startX startY toX toY [] of
           Inl e \<Rightarrow> Inl e
         | Inr p \<Rightarrow>
             Inr \<lparr>resultMap = nodeMap st,
                  resultPath = p @ [nodeMap st (startY * gridWidth + startX)],
                  pathLength = int (length p) + 1,
                  resultOverflow = overflowLogged st\<rparr>)
      else Inr \<lparr>resultMap = nodeMap st, resultPath = [], pathLength = 0,
                resultOverflow = overflowLogged st\<rparr>)"

definition FindPath ::
  "(int \<Rightarrow> int) \<Rightarrow> (int \<Rightarrow> PathfindingNode) \<Rightarrow> int \<Rightarrow> int \<Rightarrow> int \<Rightarrow> int \<Rightarrow> int \<Rightarrow> int \<Rightarrow> int \<Rightarrow>
   (error + SearchResult) option" where
  "FindPath sdfCells m toX toY startX startY unitSize sdfFactor enableJumping =
     (if \<not> validIndex (startY * gridWidth + startX) then Some (Inl OutOfBounds)
      else case searchLoop sdfCells unitSize sdfFactor enableJumping (initialState m startX startY) of
             None \<Rightarrow> None
           | Some (Inl e) \<Rightarrow> Some (Inl e)
           | Some (Inr st) \<Rightarrow> Some (reconstruct st toX toY startX startY))"

section \<open>Notions used to state the properties\<close>

text \<open>The guard of FindPath on a target cell, negated: the cell lies on the grid.\<close>

definition inGrid :: "int \<Rightarrow> int \<Rightarrow> bool" where
  "inGrid x y \<longleftrightarrow> 0 \<le> x \<and> x < gridWidth \<and> 0 \<le> y \<and> y < gridHeight"

definition stepCost :: "(int \<Rightarrow> int) \<Rightarrow> int \<Rightarrow> int \<Rightarrow> int \<Rightarrow> NeighborOffset \<Rightarrow> int" where
  "stepCost sdfCells sdfFactor x y off =
     distance off +
     c_div (c_div ((sdfCells ((y + oy off) * gridWidth + (x + ox off)) + sdfCells (y * gridWidth + x))
                   * (distance off + 1)) 2 * sdfFactor) 6"

definition stepAllowed :: "(int \<Rightarrow> int) \<Rightarrow> int \<Rightarrow> int \<Rightarrow> int \<Rightarrow> int \<Rightarrow> NeighborOffset \<Rightarrow> bool" where
  "stepAllowed sdfCells unitSize enableJumping x y off \<longleftrightarrow>
     off \<in> set neighborOffsets \<and>
     \<not> (distance off > (if sdfCells (y * gridWidth + x) - unitSize < 1 then 1
                          else sdfCells (y * gridWidth + x) - unitSize)
        \<or> (enableJumping = 0 \<and> distance off > 1)) \<and>
     inGrid (x + ox off) (y + oy off) \<and>
     unitSize \<le> sdfCells ((y + oy off) * gridWidth + (x + ox off))"

inductive reachableCell :: "(int \<Rightarrow> int) \<Rightarrow> int \<Rightarrow> int \<Rightarrow> int \<Rightarrow> int \<Rightarrow> int \<Rightarrow> int \<Rightarrow> bool"
  for sdfCells unitSize enableJumping startX startY where
  start: "reachableCell sdfCells unitSize enableJumping startX startY startX startY"
| step: "reachableCell sdfCells unitSize enableJumping startX startY x y \<Longrightarrow>
         stepAllowed sdfCells unitSize enableJumping x y off \<Longrightarrow>
         reachableCell sdfCells unitSize enableJumping startX startY (x + ox off) (y + oy off)"

definition linked ::
  "(int \<Rightarrow> int) \<Rightarrow> int \<Rightarrow> int \<Rightarrow> int \<Rightarrow> int \<Rightarrow> PathfindingNode \<Rightarrow> int \<Rightarrow> int \<Rightarrow> bool" where
  "linked sdfCells unitSize enableJumping startX startY e x y \<longleftrightarrow>
     nx e = x \<and> ny e = y \<and>
     ((x = startX \<and> y = startY \<and> fromX e = -1 \<and> fromY e = -1) \<or>
      (inGrid (fromX e) (fromY e) \<and>
       (\<exists>off. stepAllowed sdfCells unitSize enableJumping (fromX e) (fromY e) off \<and>
              x = fromX e + ox off \<and> y = fromY e + oy off)))"

definition searchInv ::
  "(int \<Rightarrow> int) \<Rightarrow> int \<Rightarrow> int \<Rightarrow> int \<Rightarrow> int \<Rightarrow> SearchState \<Rightarrow> bool" where
  "searchInv sdfCells unitSize enableJumping startX startY st \<longleftrightarrow>
     int (length (queue st)) < gridWidth * gridHeight \<and>
     (\<forall>e\<in>set (queue st). inGrid (nx e) (ny e) \<and>
        reachableCell sdfCells unitSize enableJumping startX startY (nx e) (ny e)) \<and>
     (\<forall>x y. inGrid x y \<longrightarrow> score (nodeMap st (y * gridWidth + x)) \<noteq> 0 \<longrightarrow>
        linked sdfCells unitSize enableJumping startX startY (nodeMap st (y * gridWidth + x)) x y \<and>
        reachableCell sdfCells unitSize enableJumping startX startY x y) \<and>
     inGrid startX startY \<and>
     nx (nodeMap st (startY * gridWidth + startX)) = startX \<and>
     ny (nodeMap st (startY * gridWidth + startX)) = startY"

definition emptyMap :: "int \<Rightarrow> PathfindingNode" where
  "emptyMap = (\<lambda>i. \<lparr>nx = 0, ny = 0, fromX = 0, fromY = 0, score = 0\<rparr>)"

definition unitOffsets :: "NeighborOffset list" where
  "unitOffsets = [\<lparr>ox = - 1, oy = 0, distance = 1\<rparr>, \<lparr>ox = 0, oy = - 1, distance = 1\<rparr>,
      \<lparr>ox = 0, oy = 1, distance = 1\<rparr>, \<lparr>ox = 1, oy = 0, distance = 1\<rparr>]"

definition passesGuards :: "(int \<Rightarrow> int) \<Rightarrow> int \<Rightarrow> int \<Rightarrow> int \<Rightarrow> int \<Rightarrow> int \<Rightarrow> NeighborOffset \<Rightarrow> bool" where
  "passesGuards sdfCells unitSize enableJumping maxDistance x y off \<longleftrightarrow>
     \<not> (distance off > maxDistance \<or> (enableJumping = 0 \<and> distance off > 1)) \<and>
     \<not> (x + ox off < 0 \<or> x + ox off \<ge> gridWidth \<or> y + oy off < 0 \<or> y + oy off \<ge> gridHeight) \<and>
     \<not> sdfCells ((y + oy off) * gridWidth + (x + ox off)) < unitSize"

fun chainFrom :: "(int \<Rightarrow> PathfindingNode) \<Rightarrow> int \<Rightarrow> int \<Rightarrow> PathfindingNode list \<Rightarrow> bool" where
  "chainFrom m x y [] = True"
| "chainFrom m x y (e # es) = (e = m (y * gridWidth + x) \<and> chainFrom m (fromX e) (fromY e) es)"

definition mapInv ::
  "(int \<Rightarrow> int) \<Rightarrow> int \<Rightarrow> int \<Rightarrow> int \<Rightarrow> int \<Rightarrow> (int \<Rightarrow> PathfindingNode) \<Rightarrow> bool" where
  "mapInv sdfCells unitSize enableJumping startX startY m \<longleftrightarrow>
     (\<forall>x y. inGrid x y \<longrightarrow> score (m (y * gridWidth + x)) \<noteq> 0 \<longrightarrow>
        linked sdfCells unitSize enableJumping startX startY (m (y * gridWidth + x)) x y)"


definition sdfAB :: "int \<Rightarrow> int" where
  "sdfAB = (\<lambda>i. if i = 0 \<or> i = 1 then 1 else 0)"

definition stAB0 :: SearchState where "stAB0 = initialState emptyMap 0 0"

definition stAB1 :: SearchState where
  "stAB1 = \<lparr>queue = [\<lparr>nx = 1, ny = 0, fromX = 0, fromY = 0, score = 2\<rparr>],
     nodeMap = (nodeMap stAB0)(1 := \<lparr>nx = 1, ny = 0, fromX = 0, fromY = 0, score = 2\<rparr>),
     overflowLogged = False\<rparr>"

definition resultAB :: SearchResult where
  "resultAB = \<lparr>resultMap = nodeMap stAB1,
     resultPath = [\<lparr>nx = 1, ny = 0, fromX = 0, fromY = 0, score = 2\<rparr>,
                   \<lparr>nx = 0, ny = 0, fromX = -1, fromY = -1, score = 1\<rparr>],
     pathLength = 2, resultOverflow = False\<rparr>"

definition sdfBlocked :: "int \<Rightarrow> int" where
  "sdfBlocked = (\<lambda>i. 0)"

definition resultBlocked :: SearchResult where
  "resultBlocked = \<lparr>resultMap = nodeMap stAB0,
     resultPath = [\<lparr>nx = 0, ny = 0, fromX = -1, fromY = -1, score = 1\<rparr>],
     pathLength = 1, resultOverflow = False\<rparr>"







inductive reachedState ::
  "(int \<Rightarrow> int) \<Rightarrow> int \<Rightarrow> int \<Rightarrow> int \<Rightarrow> SearchState \<Rightarrow> SearchState \<Rightarrow> bool"
  for sdfCells unitSize sdfFactor enableJumping st0 where
  init: "reachedState sdfCells unitSize sdfFactor enableJumping st0 st0"
| step: "reachedState sdfCells unitSize sdfFactor enableJumping st0 s \<Longrightarrow> queue s \<noteq> [] \<Longrightarrow>
         expandLowest sdfCells unitSize sdfFactor enableJumping s = Inr s' \<Longrightarrow>
         reachedState sdfCells unitSize sdfFactor enableJumping st0 s'"





definition relaxedOn ::
  "(int \<Rightarrow> int) \<Rightarrow> int \<Rightarrow> int \<Rightarrow> int \<Rightarrow> (int \<Rightarrow> PathfindingNode) \<Rightarrow> int \<Rightarrow> int \<Rightarrow> int \<Rightarrow>
   NeighborOffset set \<Rightarrow> bool" where
  "relaxedOn sdfCells unitSize sdfFactor enableJumping m s x y D \<longleftrightarrow>
     (\<forall>off\<in>D. stepAllowed sdfCells unitSize enableJumping x y off \<longrightarrow>
        score (m ((y + oy off) * gridWidth + (x + ox off))) \<noteq> 0 \<and>
        score (m ((y + oy off) * gridWidth + (x + ox off))) \<le> s + stepCost sdfCells sdfFactor x y off)"


definition freshOrRelaxed ::
  "(int \<Rightarrow> int) \<Rightarrow> int \<Rightarrow> int \<Rightarrow> int \<Rightarrow> SearchState \<Rightarrow> int \<Rightarrow> int \<Rightarrow> bool" where
  "freshOrRelaxed sdfCells unitSize sdfFactor enableJumping st x y \<longleftrightarrow>
     (\<exists>q\<in>set (queue st). nx q = x \<and> ny q = y \<and> score q = score (nodeMap st (y * gridWidth + x))) \<or>
     relaxedOn sdfCells unitSize sdfFactor enableJumping (nodeMap st)
       (score (nodeMap st (y * gridWidth + x))) x y UNIV"

definition freshInv ::
  "(int \<Rightarrow> int) \<Rightarrow> int \<Rightarrow> int \<Rightarrow> int \<Rightarrow> SearchState \<Rightarrow> bool" where
  "freshInv sdfCells unitSize sdfFactor enableJumping st \<longleftrightarrow>
     (\<forall>x y. inGrid x y \<longrightarrow> score (nodeMap st (y * gridWidth + x)) \<noteq> 0 \<longrightarrow>
        freshOrRelaxed sdfCells unitSize sdfFactor enableJumping st x y)"




definition roundedUpRoot :: "int \<Rightarrow> int" where
  "roundedUpRoot n = int (ceilSqrt (nat n) (nat n))"

definition cellMetric :: "int \<Rightarrow> int \<Rightarrow> int \<Rightarrow> int" where
  "cellMetric sdfFunction dx dy =
     (if sdfFunction = 0 then roundedUpRoot (dx * dx + dy * dy)
      else if sdfFunction = 1 then max \<bar>dx\<bar> \<bar>dy\<bar>
      else \<bar>dx\<bar> + \<bar>dy\<bar>)"

definition cellsOf :: "int list \<Rightarrow> int list \<Rightarrow> (int \<times> int) list" where
  "cellsOf xs ys = concat (map (\<lambda>y. map (\<lambda>x. (x, y)) xs) ys)"

definition gridCells :: "(int \<times> int) list" where
  "gridCells = cellsOf [0..gridWidth - 1] [0..gridHeight - 1]"

definition blockedIn :: "(int \<Rightarrow> int) \<Rightarrow> (int \<times> int) list \<Rightarrow> (int \<times> int) list" where
  "blockedIn blockedCells cells = filter (\<lambda>c. blockedCells (snd c * gridWidth + fst c) = 1) cells"

definition saturatedMin :: "int \<Rightarrow> int \<Rightarrow> int \<Rightarrow> (int \<times> int) list \<Rightarrow> int" where
  "saturatedMin sdfFunction x y walls =
     Min (insert 10 ((\<lambda>b. cellMetric sdfFunction (fst b - x) (snd b - y)) ` set walls))"

definition cellKey :: "int \<times> int \<Rightarrow> int" where
  "cellKey c = snd c * gridWidth + fst c"

definition splatValue :: "int \<Rightarrow> int \<Rightarrow> int \<Rightarrow> int \<times> int \<Rightarrow> int \<Rightarrow> int" where
  "splatValue sdfFunction x y c v =
     (let d = sdfDistance sdfFunction (x - fst c) (y - snd c) in if d < v \<and> d < 10 then d else v)"

definition clearanceSpec :: "(int \<Rightarrow> int) \<Rightarrow> int \<Rightarrow> int \<Rightarrow> int \<Rightarrow> int" where
  "clearanceSpec blockedCells sdfFunction x y = saturatedMin sdfFunction x y (blockedIn blockedCells gridCells)"

definition wallAtOrigin :: "int \<Rightarrow> int" where
  "wallAtOrigin = (\<lambda>i. if i = 0 then 1 else 0)"

section \<open>Basic facts\<close>

lemma gridWidth_pos: "0 < gridWidth" by (simp add: gridWidth_def)
lemma gridHeight_pos: "0 < gridHeight" by (simp add: gridHeight_def)

lemma inGrid_validIndex: "inGrid x y \<Longrightarrow> validIndex (y * gridWidth + x)"
proof -
  assume a: "inGrid x y"
  then have "y + 1 \<le> gridHeight" "0 \<le> y" "0 \<le> x" "x < gridWidth" by (auto simp: inGrid_def)
  then have "(y + 1) * gridWidth \<le> gridHeight * gridWidth"
    using gridWidth_pos by (intro mult_right_mono) auto
  moreover have "0 \<le> y * gridWidth" using \<open>0 \<le> y\<close> gridWidth_pos by simp
  ultimately show ?thesis using \<open>0 \<le> x\<close> \<open>x < gridWidth\<close>
    by (simp add: validIndex_def algebra_simps)
qed

lemma cellIndex_inj:
  assumes "inGrid x y" "inGrid x' y'" "y * gridWidth + x = y' * gridWidth + x'"
  shows "x = x' \<and> y = y'"
proof -
  from assms have b: "0 \<le> x" "x < gridWidth" "0 \<le> x'" "x' < gridWidth"
    by (auto simp: inGrid_def)
  have "(y * gridWidth + x) div gridWidth = y" using b by simp
  moreover have "(y' * gridWidth + x') div gridWidth = y'" using b by simp
  ultimately have "y = y'" using assms(3) by simp
  with assms(3) show ?thesis by simp
qed

lemma lowestScoreIndex_fold:
  "foldl (\<lambda>l i. if score (q ! i) < score (q ! l) then i else l) 0 [1..<Suc n] \<le> n \<and>
   (\<forall>i\<le>n. score (q ! foldl (\<lambda>l i. if score (q ! i) < score (q ! l) then i else l) 0 [1..<Suc n])
            \<le> score (q ! i))"
proof (induction n)
  case 0
  show ?case by simp
next
  case (Suc n)
  have u: "[1..<Suc (Suc n)] = [1..<Suc n] @ [Suc n]" by simp
  show ?case unfolding u foldl_append using Suc
    by (auto simp: le_Suc_eq)
qed

lemma lowestScoreIndex_less: "q \<noteq> [] \<Longrightarrow> lowestScoreIndex q < length q"
  using lowestScoreIndex_fold [of q "length q - 1"]
  by (cases q) (auto simp: lowestScoreIndex_def)



lemma set_dequeueAt:
  "l < length q \<Longrightarrow> set q = insert (q ! l) (set (dequeueAt l q))"
proof -
  assume l: "l < length q"
  have "q = take l q @ (q ! l) # drop (Suc l) q" using l by (simp add: id_take_nth_drop)
  then have "set q = set (take l q @ (q ! l) # drop (Suc l) q)" by simp
  then show ?thesis by (simp add: dequeueAt_def)
qed

lemma length_dequeueAt: "l < length q \<Longrightarrow> length (dequeueAt l q) = length q - 1"
  by (auto simp: dequeueAt_def)


lemma visitOffset_cases:
  assumes "visitOffset sdfCells unitSize sdfFactor enableJumping node cellSdf maxDistance st off = Inr st'"
  obtains (skip) "st' = st"
  | (update) x y sc cell where
      "x = nx node + ox off" "y = ny node + oy off" "inGrid x y"
      "\<not> (distance off > maxDistance \<or> (enableJumping = 0 \<and> distance off > 1))"
      "unitSize \<le> sdfCells (y * gridWidth + x)"
      "sc = score node + distance off +
            c_div (c_div ((sdfCells (y * gridWidth + x) + cellSdf) * (distance off + 1)) 2 * sdfFactor) 6"
      "score (nodeMap st (y * gridWidth + x)) = 0 \<or> sc < score (nodeMap st (y * gridWidth + x))"
      "cell = \<lparr>nx = x, ny = y, fromX = nx node, fromY = ny node, score = sc\<rparr>"
      "nodeMap st' = (nodeMap st)(y * gridWidth + x := cell)"
      "int (length (queue st)) < gridWidth * gridHeight"
      "(queue st' = queue st @ [cell] \<and> overflowLogged st' = overflowLogged st
          \<and> int (length (queue st)) + 1 < gridWidth * gridHeight)
       \<or> (queue st' = queue st \<and> overflowLogged st'
          \<and> int (length (queue st)) + 1 = gridWidth * gridHeight)"
proof -
  let ?x = "nx node + ox off" and ?y = "ny node + oy off"
  let ?sc = "score node + distance off +
            c_div (c_div ((sdfCells (?y * gridWidth + ?x) + cellSdf) * (distance off + 1)) 2 * sdfFactor) 6"
  let ?cell = "\<lparr>nx = ?x, ny = ?y, fromX = nx node, fromY = ny node, score = ?sc\<rparr>"
  show thesis
  proof (cases "st' = st")
    case True
    then show ?thesis by (rule skip)
  next
    case False
    from assms False have g1: "\<not> (distance off > maxDistance \<or> (enableJumping = 0 \<and> distance off > 1))"
      by (auto simp: visitOffset_def Let_def split: if_splits)
    from assms False g1 have g2: "inGrid ?x ?y"
      by (auto simp: visitOffset_def Let_def inGrid_def split: if_splits)
    then have g2': "\<not> (?x < 0 \<or> ?x \<ge> gridWidth \<or> ?y < 0 \<or> ?y \<ge> gridHeight)"
      by (auto simp: inGrid_def)
    from assms False g1 g2' have g3: "unitSize \<le> sdfCells (?y * gridWidth + ?x)"
      by (simp add: visitOffset_def Let_def split: if_splits)
    from assms False g1 g2' g3 have g4:
      "score (nodeMap st (?y * gridWidth + ?x)) = 0 \<or> ?sc < score (nodeMap st (?y * gridWidth + ?x))"
      by (simp add: visitOffset_def Let_def split: if_splits)
    from assms False g1 g2' g3 g4 have g5: "validIndex (int (length (queue st)))"
      by (simp add: visitOffset_def Let_def inGrid_validIndex [OF g2] split: if_splits)
    then have len: "int (length (queue st)) < gridWidth * gridHeight" by (simp add: validIndex_def)
    have res: "st' = (if int (length (queue st @ [?cell])) \<ge> gridWidth * gridHeight
               then \<lparr>queue = take (nat (gridWidth * gridHeight - 1)) (queue st @ [?cell]),
                     nodeMap = (nodeMap st)(?y * gridWidth + ?x := ?cell), overflowLogged = True\<rparr>
               else st\<lparr>queue := queue st @ [?cell], nodeMap := (nodeMap st)(?y * gridWidth + ?x := ?cell)\<rparr>)"
      using assms g1 g2' g3 g4 g5
      by (simp add: visitOffset_def Let_def inGrid_validIndex [OF g2] add.assoc split: if_splits)
    have m: "nodeMap st' = (nodeMap st)(?y * gridWidth + ?x := ?cell)"
      by (simp add: res)
    have q: "(queue st' = queue st @ [?cell] \<and> overflowLogged st' = overflowLogged st
          \<and> int (length (queue st)) + 1 < gridWidth * gridHeight)
       \<or> (queue st' = queue st \<and> overflowLogged st'
          \<and> int (length (queue st)) + 1 = gridWidth * gridHeight)"
    proof (cases "int (length (queue st @ [?cell])) \<ge> gridWidth * gridHeight")
      case True
      then have "int (length (queue st)) + 1 = gridWidth * gridHeight" using len by simp
      moreover from this have "nat (gridWidth * gridHeight - 1) = length (queue st)" by simp
      ultimately show ?thesis using True by (simp add: res)
    next
      case F: False
      then show ?thesis by (simp add: res)
    qed
    show ?thesis
      by (rule update [OF refl refl g2 g1 g3 refl g4 refl m len q])
  qed
qed

lemma visitOffset_no_error:
  assumes "int (length (queue st)) < gridWidth * gridHeight"
  shows "\<exists>st'. visitOffset sdfCells unitSize sdfFactor enableJumping node cellSdf maxDistance st off = Inr st'"
proof -
  let ?x = "nx node + ox off" and ?y = "ny node + oy off"
  have v: "validIndex (int (length (queue st)))" using assms by (simp add: validIndex_def)
  have "\<not> (?x < 0 \<or> ?x \<ge> gridWidth \<or> ?y < 0 \<or> ?y \<ge> gridHeight) \<Longrightarrow> validIndex (?y * gridWidth + ?x)"
    by (rule inGrid_validIndex) (auto simp: inGrid_def)
  then show ?thesis using v
    by (auto simp: visitOffset_def Let_def)
qed

lemma searchInv_visitOffset:
  assumes inv: "searchInv sdfCells unitSize enableJumping startX startY st"
    and node: "inGrid (nx node) (ny node)"
      "reachableCell sdfCells unitSize enableJumping startX startY (nx node) (ny node)"
    and cs: "cellSdf = sdfCells (ny node * gridWidth + nx node)"
    and md: "maxDistance = (if cellSdf - unitSize < 1 then 1 else cellSdf - unitSize)"
    and off: "off \<in> set neighborOffsets"
    and v: "visitOffset sdfCells unitSize sdfFactor enableJumping node cellSdf maxDistance st off = Inr st'"
  shows "searchInv sdfCells unitSize enableJumping startX startY st'"
  using v
proof (cases rule: visitOffset_cases)
  case skip
  with inv show ?thesis by simp
next
  case (update x y sc cell)
  have allowed: "stepAllowed sdfCells unitSize enableJumping (nx node) (ny node) off"
    using update(3,4,5) [unfolded update(1,2) md cs] off unfolding stepAllowed_def
    by (auto split: if_splits)
  have reach: "reachableCell sdfCells unitSize enableJumping startX startY x y"
    unfolding update(1,2) by (rule reachableCell.step [OF node(2) allowed])
  have lnk: "linked sdfCells unitSize enableJumping startX startY cell x y"
    unfolding linked_def using update(1,2,8) node(1) allowed by auto
  have q: "set (queue st') \<subseteq> insert cell (set (queue st))"
    using update(11) by auto
  have cellxy: "nx cell = x" "ny cell = y" using update(8) by simp_all
  have a: "int (length (queue st')) < gridWidth * gridHeight"
    using update(10,11) by auto
  have b: "\<forall>e\<in>set (queue st'). inGrid (nx e) (ny e) \<and>
        reachableCell sdfCells unitSize enableJumping startX startY (nx e) (ny e)"
  proof
    fix e assume "e \<in> set (queue st')"
    with q have "e = cell \<or> e \<in> set (queue st)" by auto
    then show "inGrid (nx e) (ny e) \<and>
        reachableCell sdfCells unitSize enableJumping startX startY (nx e) (ny e)"
      using inv reach update(3) cellxy by (auto simp: searchInv_def)
  qed
  have c: "linked sdfCells unitSize enableJumping startX startY (nodeMap st' (y' * gridWidth + x')) x' y' \<and>
        reachableCell sdfCells unitSize enableJumping startX startY x' y'"
    if g: "inGrid x' y'" and nz: "score (nodeMap st' (y' * gridWidth + x')) \<noteq> 0" for x' y'
  proof (cases "y' * gridWidth + x' = y * gridWidth + x")
    case True
    then have "x' = x \<and> y' = y" using cellIndex_inj [OF g update(3)] by simp
    then show ?thesis using lnk reach update(9) by simp
  next
    case False
    then have "nodeMap st' (y' * gridWidth + x') = nodeMap st (y' * gridWidth + x')"
      using update(9) by simp
    then show ?thesis using inv g nz by (simp add: searchInv_def)
  qed
  have st: "inGrid startX startY" using inv by (simp add: searchInv_def)
  have d: "nx (nodeMap st' (startY * gridWidth + startX)) = startX \<and>
     ny (nodeMap st' (startY * gridWidth + startX)) = startY"
  proof (cases "startY * gridWidth + startX = y * gridWidth + x")
    case True
    then have "startX = x \<and> startY = y" using cellIndex_inj [OF st update(3)] by simp
    then show ?thesis using update(9) cellxy by simp
  next
    case False
    then show ?thesis using update(9) inv by (simp add: searchInv_def)
  qed
  show ?thesis unfolding searchInv_def using a b c d st by blast
qed

lemma searchInv_visitOffsets:
  assumes inv: "searchInv sdfCells unitSize enableJumping startX startY st"
    and node: "inGrid (nx node) (ny node)"
      "reachableCell sdfCells unitSize enableJumping startX startY (nx node) (ny node)"
    and cs: "cellSdf = sdfCells (ny node * gridWidth + nx node)"
    and md: "maxDistance = (if cellSdf - unitSize < 1 then 1 else cellSdf - unitSize)"
    and offs: "set offs \<subseteq> set neighborOffsets"
  shows "\<exists>st'. visitOffsets sdfCells unitSize sdfFactor enableJumping node cellSdf maxDistance st offs = Inr st'
           \<and> searchInv sdfCells unitSize enableJumping startX startY st'"
  using inv offs
proof (induction offs arbitrary: st)
  case Nil
  then show ?case by simp
next
  case (Cons off offs)
  from Cons.prems(1) have "int (length (queue st)) < gridWidth * gridHeight"
    by (simp add: searchInv_def)
  from visitOffset_no_error [OF this] obtain s1 where
    s1: "visitOffset sdfCells unitSize sdfFactor enableJumping node cellSdf maxDistance st off = Inr s1"
    by blast
  have "off \<in> set neighborOffsets" using Cons.prems(2) by simp
  from searchInv_visitOffset [OF Cons.prems(1) node cs md this s1]
  have i1: "searchInv sdfCells unitSize enableJumping startX startY s1" .
  have "set offs \<subseteq> set neighborOffsets" using Cons.prems(2) by simp
  from Cons.IH [OF i1 this] show ?case using s1 by simp
qed

lemma searchInv_expandLowest:
  assumes inv: "searchInv sdfCells unitSize enableJumping startX startY st"
    and ne: "queue st \<noteq> []"
  shows "\<exists>st'. expandLowest sdfCells unitSize sdfFactor enableJumping st = Inr st'
           \<and> searchInv sdfCells unitSize enableJumping startX startY st'"
proof -
  let ?l = "lowestScoreIndex (queue st)"
  let ?node = "queue st ! ?l"
  let ?st1 = "st\<lparr>queue := dequeueAt ?l (queue st)\<rparr>"
  have l: "?l < length (queue st)" by (rule lowestScoreIndex_less [OF ne])
  then have mem: "?node \<in> set (queue st)" by simp
  then have node: "inGrid (nx ?node) (ny ?node)"
    "reachableCell sdfCells unitSize enableJumping startX startY (nx ?node) (ny ?node)"
    using inv by (auto simp: searchInv_def)
  have sub: "set (dequeueAt ?l (queue st)) \<subseteq> set (queue st)"
    using set_dequeueAt [OF l] by auto
  have inv1: "searchInv sdfCells unitSize enableJumping startX startY ?st1"
    using inv sub length_dequeueAt [OF l] by (auto simp: searchInv_def)
  have vi: "validIndex (ny ?node * gridWidth + nx ?node)" by (rule inGrid_validIndex [OF node(1)])
  from searchInv_visitOffsets [OF inv1 node refl refl subset_refl]
  show ?thesis using vi by (simp add: expandLowest_def Let_def)
qed

lemma searchInv_initialState:
  assumes "inGrid startX startY"
  shows "searchInv sdfCells unitSize enableJumping startX startY (initialState m startX startY)"
proof -
  have one: "(1::int) < gridWidth * gridHeight" by (simp add: gridWidth_def gridHeight_def)
  have c: "linked sdfCells unitSize enableJumping startX startY
             (nodeMap (initialState m startX startY) (y * gridWidth + x)) x y \<and>
        reachableCell sdfCells unitSize enableJumping startX startY x y"
    if g: "inGrid x y" and nz: "score (nodeMap (initialState m startX startY) (y * gridWidth + x)) \<noteq> 0"
    for x y
  proof (cases "y * gridWidth + x = startY * gridWidth + startX")
    case True
    then have "x = startX \<and> y = startY" using cellIndex_inj [OF g assms] by simp
    then show ?thesis by (simp add: initialState_def linked_def reachableCell.start)
  next
    case False
    then show ?thesis using nz inGrid_validIndex [OF g] by (simp add: initialState_def)
  qed
  show ?thesis unfolding searchInv_def using one assms c
    by (simp add: initialState_def reachableCell.start)
qed

lemma searchLoop_rule:
  assumes run: "searchLoop sdfCells unitSize sdfFactor enableJumping st = Some res"
    and init: "I st"
    and step: "\<And>s. I s \<Longrightarrow> queue s \<noteq> [] \<Longrightarrow>
           \<exists>s'. expandLowest sdfCells unitSize sdfFactor enableJumping s = Inr s' \<and> I s'"
  shows "\<exists>st'. res = Inr st' \<and> I st' \<and> queue st' = []"
proof -
  let ?P = "\<lambda>(a::int \<Rightarrow> int) (b::int) (c::int) (d::int) (s::SearchState) (y::error + SearchState).
      a = sdfCells \<longrightarrow> b = unitSize \<longrightarrow> c = sdfFactor \<longrightarrow> d = enableJumping \<longrightarrow> I s \<longrightarrow>
          (\<exists>r. y = Inr r \<and> I r \<and> queue r = [])"
  have "?P sdfCells unitSize sdfFactor enableJumping st res"
  proof (rule searchLoop.raw_induct [where P = ?P, OF _ run])
    fix loop a b c d s y
    assume IH: "\<And>a b c d s y. loop a b c d s = Some y \<Longrightarrow> ?P a b c d s y"
      and body: "(if queue s = [] then Some (Inr s)
                  else case expandLowest a b c d s of Inl e \<Rightarrow> Some (Inl e)
                       | Inr st' \<Rightarrow> loop a b c d st') = Some y"
    show "?P a b c d s y"
    proof (intro impI)
      assume eqs: "a = sdfCells" "b = unitSize" "c = sdfFactor" "d = enableJumping"
        and Is: "I s"
      show "\<exists>r. y = Inr r \<and> I r \<and> queue r = []"
      proof (cases "queue s = []")
        case True
        with body Is show ?thesis by auto
      next
        case False
        from step [OF Is False] obtain s' where
          e: "expandLowest a b c d s = Inr s'" and Is': "I s'" using eqs by auto
        with body False have l: "loop a b c d s' = Some y" by simp
        from IH [OF l] eqs Is' show ?thesis by simp
      qed
    qed
  qed
  with init show ?thesis by simp
qed

lemma searchLoop_searchInv:
  assumes "searchLoop sdfCells unitSize sdfFactor enableJumping st = Some res"
    and "searchInv sdfCells unitSize enableJumping startX startY st"
  shows "\<exists>st'. res = Inr st' \<and> searchInv sdfCells unitSize enableJumping startX startY st' \<and> queue st' = []"
  by (rule searchLoop_rule [where I = "searchInv sdfCells unitSize enableJumping startX startY", OF assms])
     (rule searchInv_expandLowest)

lemma visitOffset_skip:
  assumes "\<not> passesGuards sdfCells unitSize enableJumping maxDistance (nx node) (ny node) off"
  shows "visitOffset sdfCells unitSize sdfFactor enableJumping node cellSdf maxDistance st off = Inr st"
proof -
  let ?A = "distance off > maxDistance \<or> (enableJumping = 0 \<and> distance off > 1)"
  let ?B = "nx node + ox off < 0 \<or> nx node + ox off \<ge> gridWidth \<or> ny node + oy off < 0
        \<or> ny node + oy off \<ge> gridHeight"
  let ?C = "sdfCells ((ny node + oy off) * gridWidth + (nx node + ox off)) < unitSize"
  consider (a) ?A | (b) "\<not> ?A" ?B | (c) "\<not> ?A" "\<not> ?B" ?C
    using assms unfolding passesGuards_def by blast
  then show ?thesis
  proof cases
    case a
    then show ?thesis unfolding visitOffset_def Let_def by (simp only: if_True)
  next
    case b
    then show ?thesis unfolding visitOffset_def Let_def by (simp only: if_True if_False)
  next
    case c
    have "inGrid (nx node + ox off) (ny node + oy off)" using c(2) by (auto simp: inGrid_def)
    then have "validIndex ((ny node + oy off) * gridWidth + (nx node + ox off))"
      by (rule inGrid_validIndex)
    with c show ?thesis unfolding visitOffset_def Let_def
      by (simp only: if_True if_False not_not not_True_eq_False)
  qed
qed

lemma visitOffsets_filter:
  "visitOffsets sdfCells unitSize sdfFactor enableJumping node cellSdf maxDistance st offs =
   visitOffsets sdfCells unitSize sdfFactor enableJumping node cellSdf maxDistance st
     (filter (passesGuards sdfCells unitSize enableJumping maxDistance (nx node) (ny node)) offs)"
proof (induction offs arbitrary: st)
  case Nil
  show ?case by simp
next
  case (Cons off offs)
  show ?case
  proof (cases "passesGuards sdfCells unitSize enableJumping maxDistance (nx node) (ny node) off")
    case True
    then show ?thesis using Cons.IH by (simp split: sum.splits)
  next
    case False
    then show ?thesis using Cons.IH visitOffset_skip [OF False] by simp
  qed
qed

lemma expandLowest_filter:
  "expandLowest sdfCells unitSize sdfFactor enableJumping st =
     (let l = lowestScoreIndex (queue st);
          node = queue st ! l;
          st1 = st\<lparr>queue := dequeueAt l (queue st)\<rparr>
      in if \<not> validIndex (ny node * gridWidth + nx node) then Inl OutOfBounds
         else
           let cellSdf = sdfCells (ny node * gridWidth + nx node);
               maxDistance = (if cellSdf - unitSize < 1 then 1 else cellSdf - unitSize)
           in visitOffsets sdfCells unitSize sdfFactor enableJumping node cellSdf maxDistance
                st1 (filter (passesGuards sdfCells unitSize enableJumping maxDistance (nx node) (ny node))
                       neighborOffsets))"
  unfolding expandLowest_def Let_def using visitOffsets_filter by simp

lemma neighborOffsets_table:
  "neighborOffsets =
    [\<lparr>ox = - 10, oy = 0, distance = 10\<rparr>, \<lparr>ox = - 9, oy = - 4, distance = 10\<rparr>, \<lparr>ox = - 9, oy = - 3, distance = 10\<rparr>,
     \<lparr>ox = - 9, oy = - 2, distance = 10\<rparr>, \<lparr>ox = - 9, oy = - 1, distance = 10\<rparr>, \<lparr>ox = - 9, oy = 0, distance = 9\<rparr>,
     \<lparr>ox = - 9, oy = 1, distance = 10\<rparr>, \<lparr>ox = - 9, oy = 2, distance = 10\<rparr>, \<lparr>ox = - 9, oy = 3, distance = 10\<rparr>,
     \<lparr>ox = - 9, oy = 4, distance = 10\<rparr>, \<lparr>ox = - 8, oy = - 6, distance = 10\<rparr>, \<lparr>ox = - 8, oy = - 5, distance = 10\<rparr>,
     \<lparr>ox = - 8, oy = - 4, distance = 9\<rparr>, \<lparr>ox = - 8, oy = - 3, distance = 9\<rparr>, \<lparr>ox = - 8, oy = - 2, distance = 9\<rparr>,
     \<lparr>ox = - 8, oy = - 1, distance = 9\<rparr>, \<lparr>ox = - 8, oy = 0, distance = 8\<rparr>, \<lparr>ox = - 8, oy = 1, distance = 9\<rparr>,
     \<lparr>ox = - 8, oy = 2, distance = 9\<rparr>, \<lparr>ox = - 8, oy = 3, distance = 9\<rparr>, \<lparr>ox = - 8, oy = 4, distance = 9\<rparr>,
     \<lparr>ox = - 8, oy = 5, distance = 10\<rparr>, \<lparr>ox = - 8, oy = 6, distance = 10\<rparr>, \<lparr>ox = - 7, oy = - 7, distance = 10\<rparr>,
     \<lparr>ox = - 7, oy = - 6, distance = 10\<rparr>, \<lparr>ox = - 7, oy = - 5, distance = 9\<rparr>, \<lparr>ox = - 7, oy = - 4, distance = 9\<rparr>,
     \<lparr>ox = - 7, oy = - 3, distance = 8\<rparr>, \<lparr>ox = - 7, oy = - 2, distance = 8\<rparr>, \<lparr>ox = - 7, oy = - 1, distance = 8\<rparr>,
     \<lparr>ox = - 7, oy = 0, distance = 7\<rparr>, \<lparr>ox = - 7, oy = 1, distance = 8\<rparr>, \<lparr>ox = - 7, oy = 2, distance = 8\<rparr>,
     \<lparr>ox = - 7, oy = 3, distance = 8\<rparr>, \<lparr>ox = - 7, oy = 4, distance = 9\<rparr>, \<lparr>ox = - 7, oy = 5, distance = 9\<rparr>,
     \<lparr>ox = - 7, oy = 6, distance = 10\<rparr>, \<lparr>ox = - 7, oy = 7, distance = 10\<rparr>, \<lparr>ox = - 6, oy = - 8, distance = 10\<rparr>,
     \<lparr>ox = - 6, oy = - 7, distance = 10\<rparr>, \<lparr>ox = - 6, oy = - 6, distance = 9\<rparr>, \<lparr>ox = - 6, oy = - 5, distance = 8\<rparr>,
     \<lparr>ox = - 6, oy = - 4, distance = 8\<rparr>, \<lparr>ox = - 6, oy = - 3, distance = 7\<rparr>, \<lparr>ox = - 6, oy = - 2, distance = 7\<rparr>,
     \<lparr>ox = - 6, oy = - 1, distance = 7\<rparr>, \<lparr>ox = - 6, oy = 0, distance = 6\<rparr>, \<lparr>ox = - 6, oy = 1, distance = 7\<rparr>,
     \<lparr>ox = - 6, oy = 2, distance = 7\<rparr>, \<lparr>ox = - 6, oy = 3, distance = 7\<rparr>, \<lparr>ox = - 6, oy = 4, distance = 8\<rparr>,
     \<lparr>ox = - 6, oy = 5, distance = 8\<rparr>, \<lparr>ox = - 6, oy = 6, distance = 9\<rparr>, \<lparr>ox = - 6, oy = 7, distance = 10\<rparr>,
     \<lparr>ox = - 6, oy = 8, distance = 10\<rparr>, \<lparr>ox = - 5, oy = - 8, distance = 10\<rparr>, \<lparr>ox = - 5, oy = - 7, distance = 9\<rparr>,
     \<lparr>ox = - 5, oy = - 6, distance = 8\<rparr>, \<lparr>ox = - 5, oy = - 5, distance = 8\<rparr>, \<lparr>ox = - 5, oy = - 4, distance = 7\<rparr>,
     \<lparr>ox = - 5, oy = - 3, distance = 6\<rparr>, \<lparr>ox = - 5, oy = - 2, distance = 6\<rparr>, \<lparr>ox = - 5, oy = - 1, distance = 6\<rparr>,
     \<lparr>ox = - 5, oy = 0, distance = 5\<rparr>, \<lparr>ox = - 5, oy = 1, distance = 6\<rparr>, \<lparr>ox = - 5, oy = 2, distance = 6\<rparr>,
     \<lparr>ox = - 5, oy = 3, distance = 6\<rparr>, \<lparr>ox = - 5, oy = 4, distance = 7\<rparr>, \<lparr>ox = - 5, oy = 5, distance = 8\<rparr>,
     \<lparr>ox = - 5, oy = 6, distance = 8\<rparr>, \<lparr>ox = - 5, oy = 7, distance = 9\<rparr>, \<lparr>ox = - 5, oy = 8, distance = 10\<rparr>,
     \<lparr>ox = - 4, oy = - 9, distance = 10\<rparr>, \<lparr>ox = - 4, oy = - 8, distance = 9\<rparr>, \<lparr>ox = - 4, oy = - 7, distance = 9\<rparr>,
     \<lparr>ox = - 4, oy = - 6, distance = 8\<rparr>, \<lparr>ox = - 4, oy = - 5, distance = 7\<rparr>, \<lparr>ox = - 4, oy = - 4, distance = 6\<rparr>,
     \<lparr>ox = - 4, oy = - 3, distance = 5\<rparr>, \<lparr>ox = - 4, oy = - 2, distance = 5\<rparr>, \<lparr>ox = - 4, oy = - 1, distance = 5\<rparr>,
     \<lparr>ox = - 4, oy = 0, distance = 4\<rparr>, \<lparr>ox = - 4, oy = 1, distance = 5\<rparr>, \<lparr>ox = - 4, oy = 2, distance = 5\<rparr>,
     \<lparr>ox = - 4, oy = 3, distance = 5\<rparr>, \<lparr>ox = - 4, oy = 4, distance = 6\<rparr>, \<lparr>ox = - 4, oy = 5, distance = 7\<rparr>,
     \<lparr>ox = - 4, oy = 6, distance = 8\<rparr>, \<lparr>ox = - 4, oy = 7, distance = 9\<rparr>, \<lparr>ox = - 4, oy = 8, distance = 9\<rparr>,
     \<lparr>ox = - 4, oy = 9, distance = 10\<rparr>, \<lparr>ox = - 3, oy = - 9, distance = 10\<rparr>, \<lparr>ox = - 3, oy = - 8, distance = 9\<rparr>,
     \<lparr>ox = - 3, oy = - 7, distance = 8\<rparr>, \<lparr>ox = - 3, oy = - 6, distance = 7\<rparr>, \<lparr>ox = - 3, oy = - 5, distance = 6\<rparr>,
     \<lparr>ox = - 3, oy = - 4, distance = 5\<rparr>, \<lparr>ox = - 3, oy = - 3, distance = 5\<rparr>, \<lparr>ox = - 3, oy = - 2, distance = 4\<rparr>,
     \<lparr>ox = - 3, oy = - 1, distance = 4\<rparr>, \<lparr>ox = - 3, oy = 0, distance = 3\<rparr>, \<lparr>ox = - 3, oy = 1, distance = 4\<rparr>,
     \<lparr>ox = - 3, oy = 2, distance = 4\<rparr>, \<lparr>ox = - 3, oy = 3, distance = 5\<rparr>, \<lparr>ox = - 3, oy = 4, distance = 5\<rparr>,
     \<lparr>ox = - 3, oy = 5, distance = 6\<rparr>, \<lparr>ox = - 3, oy = 6, distance = 7\<rparr>, \<lparr>ox = - 3, oy = 7, distance = 8\<rparr>,
     \<lparr>ox = - 3, oy = 8, distance = 9\<rparr>, \<lparr>ox = - 3, oy = 9, distance = 10\<rparr>, \<lparr>ox = - 2, oy = - 9, distance = 10\<rparr>,
     \<lparr>ox = - 2, oy = - 8, distance = 9\<rparr>, \<lparr>ox = - 2, oy = - 7, distance = 8\<rparr>, \<lparr>ox = - 2, oy = - 6, distance = 7\<rparr>,
     \<lparr>ox = - 2, oy = - 5, distance = 6\<rparr>, \<lparr>ox = - 2, oy = - 4, distance = 5\<rparr>, \<lparr>ox = - 2, oy = - 3, distance = 4\<rparr>,
     \<lparr>ox = - 2, oy = - 2, distance = 3\<rparr>, \<lparr>ox = - 2, oy = - 1, distance = 3\<rparr>, \<lparr>ox = - 2, oy = 0, distance = 2\<rparr>,
     \<lparr>ox = - 2, oy = 1, distance = 3\<rparr>, \<lparr>ox = - 2, oy = 2, distance = 3\<rparr>, \<lparr>ox = - 2, oy = 3, distance = 4\<rparr>,
     \<lparr>ox = - 2, oy = 4, distance = 5\<rparr>, \<lparr>ox = - 2, oy = 5, distance = 6\<rparr>, \<lparr>ox = - 2, oy = 6, distance = 7\<rparr>,
     \<lparr>ox = - 2, oy = 7, distance = 8\<rparr>, \<lparr>ox = - 2, oy = 8, distance = 9\<rparr>, \<lparr>ox = - 2, oy = 9, distance = 10\<rparr>,
     \<lparr>ox = - 1, oy = - 9, distance = 10\<rparr>, \<lparr>ox = - 1, oy = - 8, distance = 9\<rparr>, \<lparr>ox = - 1, oy = - 7, distance = 8\<rparr>,
     \<lparr>ox = - 1, oy = - 6, distance = 7\<rparr>, \<lparr>ox = - 1, oy = - 5, distance = 6\<rparr>, \<lparr>ox = - 1, oy = - 4, distance = 5\<rparr>,
     \<lparr>ox = - 1, oy = - 3, distance = 4\<rparr>, \<lparr>ox = - 1, oy = - 2, distance = 3\<rparr>, \<lparr>ox = - 1, oy = - 1, distance = 2\<rparr>,
     \<lparr>ox = - 1, oy = 0, distance = 1\<rparr>, \<lparr>ox = - 1, oy = 1, distance = 2\<rparr>, \<lparr>ox = - 1, oy = 2, distance = 3\<rparr>,
     \<lparr>ox = - 1, oy = 3, distance = 4\<rparr>, \<lparr>ox = - 1, oy = 4, distance = 5\<rparr>, \<lparr>ox = - 1, oy = 5, distance = 6\<rparr>,
     \<lparr>ox = - 1, oy = 6, distance = 7\<rparr>, \<lparr>ox = - 1, oy = 7, distance = 8\<rparr>, \<lparr>ox = - 1, oy = 8, distance = 9\<rparr>,
     \<lparr>ox = - 1, oy = 9, distance = 10\<rparr>, \<lparr>ox = 0, oy = - 10, distance = 10\<rparr>, \<lparr>ox = 0, oy = - 9, distance = 9\<rparr>,
     \<lparr>ox = 0, oy = - 8, distance = 8\<rparr>, \<lparr>ox = 0, oy = - 7, distance = 7\<rparr>, \<lparr>ox = 0, oy = - 6, distance = 6\<rparr>,
     \<lparr>ox = 0, oy = - 5, distance = 5\<rparr>, \<lparr>ox = 0, oy = - 4, distance = 4\<rparr>, \<lparr>ox = 0, oy = - 3, distance = 3\<rparr>,
     \<lparr>ox = 0, oy = - 2, distance = 2\<rparr>, \<lparr>ox = 0, oy = - 1, distance = 1\<rparr>, \<lparr>ox = 0, oy = 1, distance = 1\<rparr>,
     \<lparr>ox = 0, oy = 2, distance = 2\<rparr>, \<lparr>ox = 0, oy = 3, distance = 3\<rparr>, \<lparr>ox = 0, oy = 4, distance = 4\<rparr>,
     \<lparr>ox = 0, oy = 5, distance = 5\<rparr>, \<lparr>ox = 0, oy = 6, distance = 6\<rparr>, \<lparr>ox = 0, oy = 7, distance = 7\<rparr>,
     \<lparr>ox = 0, oy = 8, distance = 8\<rparr>, \<lparr>ox = 0, oy = 9, distance = 9\<rparr>, \<lparr>ox = 0, oy = 10, distance = 10\<rparr>,
     \<lparr>ox = 1, oy = - 9, distance = 10\<rparr>, \<lparr>ox = 1, oy = - 8, distance = 9\<rparr>, \<lparr>ox = 1, oy = - 7, distance = 8\<rparr>,
     \<lparr>ox = 1, oy = - 6, distance = 7\<rparr>, \<lparr>ox = 1, oy = - 5, distance = 6\<rparr>, \<lparr>ox = 1, oy = - 4, distance = 5\<rparr>,
     \<lparr>ox = 1, oy = - 3, distance = 4\<rparr>, \<lparr>ox = 1, oy = - 2, distance = 3\<rparr>, \<lparr>ox = 1, oy = - 1, distance = 2\<rparr>,
     \<lparr>ox = 1, oy = 0, distance = 1\<rparr>, \<lparr>ox = 1, oy = 1, distance = 2\<rparr>, \<lparr>ox = 1, oy = 2, distance = 3\<rparr>,
     \<lparr>ox = 1, oy = 3, distance = 4\<rparr>, \<lparr>ox = 1, oy = 4, distance = 5\<rparr>, \<lparr>ox = 1, oy = 5, distance = 6\<rparr>,
     \<lparr>ox = 1, oy = 6, distance = 7\<rparr>, \<lparr>ox = 1, oy = 7, distance = 8\<rparr>, \<lparr>ox = 1, oy = 8, distance = 9\<rparr>,
     \<lparr>ox = 1, oy = 9, distance = 10\<rparr>, \<lparr>ox = 2, oy = - 9, distance = 10\<rparr>, \<lparr>ox = 2, oy = - 8, distance = 9\<rparr>,
     \<lparr>ox = 2, oy = - 7, distance = 8\<rparr>, \<lparr>ox = 2, oy = - 6, distance = 7\<rparr>, \<lparr>ox = 2, oy = - 5, distance = 6\<rparr>,
     \<lparr>ox = 2, oy = - 4, distance = 5\<rparr>, \<lparr>ox = 2, oy = - 3, distance = 4\<rparr>, \<lparr>ox = 2, oy = - 2, distance = 3\<rparr>,
     \<lparr>ox = 2, oy = - 1, distance = 3\<rparr>, \<lparr>ox = 2, oy = 0, distance = 2\<rparr>, \<lparr>ox = 2, oy = 1, distance = 3\<rparr>,
     \<lparr>ox = 2, oy = 2, distance = 3\<rparr>, \<lparr>ox = 2, oy = 3, distance = 4\<rparr>, \<lparr>ox = 2, oy = 4, distance = 5\<rparr>,
     \<lparr>ox = 2, oy = 5, distance = 6\<rparr>, \<lparr>ox = 2, oy = 6, distance = 7\<rparr>, \<lparr>ox = 2, oy = 7, distance = 8\<rparr>,
     \<lparr>ox = 2, oy = 8, distance = 9\<rparr>, \<lparr>ox = 2, oy = 9, distance = 10\<rparr>, \<lparr>ox = 3, oy = - 9, distance = 10\<rparr>,
     \<lparr>ox = 3, oy = - 8, distance = 9\<rparr>, \<lparr>ox = 3, oy = - 7, distance = 8\<rparr>, \<lparr>ox = 3, oy = - 6, distance = 7\<rparr>,
     \<lparr>ox = 3, oy = - 5, distance = 6\<rparr>, \<lparr>ox = 3, oy = - 4, distance = 5\<rparr>, \<lparr>ox = 3, oy = - 3, distance = 5\<rparr>,
     \<lparr>ox = 3, oy = - 2, distance = 4\<rparr>, \<lparr>ox = 3, oy = - 1, distance = 4\<rparr>, \<lparr>ox = 3, oy = 0, distance = 3\<rparr>,
     \<lparr>ox = 3, oy = 1, distance = 4\<rparr>, \<lparr>ox = 3, oy = 2, distance = 4\<rparr>, \<lparr>ox = 3, oy = 3, distance = 5\<rparr>,
     \<lparr>ox = 3, oy = 4, distance = 5\<rparr>, \<lparr>ox = 3, oy = 5, distance = 6\<rparr>, \<lparr>ox = 3, oy = 6, distance = 7\<rparr>,
     \<lparr>ox = 3, oy = 7, distance = 8\<rparr>, \<lparr>ox = 3, oy = 8, distance = 9\<rparr>, \<lparr>ox = 3, oy = 9, distance = 10\<rparr>,
     \<lparr>ox = 4, oy = - 9, distance = 10\<rparr>, \<lparr>ox = 4, oy = - 8, distance = 9\<rparr>, \<lparr>ox = 4, oy = - 7, distance = 9\<rparr>,
     \<lparr>ox = 4, oy = - 6, distance = 8\<rparr>, \<lparr>ox = 4, oy = - 5, distance = 7\<rparr>, \<lparr>ox = 4, oy = - 4, distance = 6\<rparr>,
     \<lparr>ox = 4, oy = - 3, distance = 5\<rparr>, \<lparr>ox = 4, oy = - 2, distance = 5\<rparr>, \<lparr>ox = 4, oy = - 1, distance = 5\<rparr>,
     \<lparr>ox = 4, oy = 0, distance = 4\<rparr>, \<lparr>ox = 4, oy = 1, distance = 5\<rparr>, \<lparr>ox = 4, oy = 2, distance = 5\<rparr>,
     \<lparr>ox = 4, oy = 3, distance = 5\<rparr>, \<lparr>ox = 4, oy = 4, distance = 6\<rparr>, \<lparr>ox = 4, oy = 5, distance = 7\<rparr>,
     \<lparr>ox = 4, oy = 6, distance = 8\<rparr>, \<lparr>ox = 4, oy = 7, distance = 9\<rparr>, \<lparr>ox = 4, oy = 8, distance = 9\<rparr>,
     \<lparr>ox = 4, oy = 9, distance = 10\<rparr>, \<lparr>ox = 5, oy = - 8, distance = 10\<rparr>, \<lparr>ox = 5, oy = - 7, distance = 9\<rparr>,
     \<lparr>ox = 5, oy = - 6, distance = 8\<rparr>, \<lparr>ox = 5, oy = - 5, distance = 8\<rparr>, \<lparr>ox = 5, oy = - 4, distance = 7\<rparr>,
     \<lparr>ox = 5, oy = - 3, distance = 6\<rparr>, \<lparr>ox = 5, oy = - 2, distance = 6\<rparr>, \<lparr>ox = 5, oy = - 1, distance = 6\<rparr>,
     \<lparr>ox = 5, oy = 0, distance = 5\<rparr>, \<lparr>ox = 5, oy = 1, distance = 6\<rparr>, \<lparr>ox = 5, oy = 2, distance = 6\<rparr>,
     \<lparr>ox = 5, oy = 3, distance = 6\<rparr>, \<lparr>ox = 5, oy = 4, distance = 7\<rparr>, \<lparr>ox = 5, oy = 5, distance = 8\<rparr>,
     \<lparr>ox = 5, oy = 6, distance = 8\<rparr>, \<lparr>ox = 5, oy = 7, distance = 9\<rparr>, \<lparr>ox = 5, oy = 8, distance = 10\<rparr>,
     \<lparr>ox = 6, oy = - 8, distance = 10\<rparr>, \<lparr>ox = 6, oy = - 7, distance = 10\<rparr>, \<lparr>ox = 6, oy = - 6, distance = 9\<rparr>,
     \<lparr>ox = 6, oy = - 5, distance = 8\<rparr>, \<lparr>ox = 6, oy = - 4, distance = 8\<rparr>, \<lparr>ox = 6, oy = - 3, distance = 7\<rparr>,
     \<lparr>ox = 6, oy = - 2, distance = 7\<rparr>, \<lparr>ox = 6, oy = - 1, distance = 7\<rparr>, \<lparr>ox = 6, oy = 0, distance = 6\<rparr>,
     \<lparr>ox = 6, oy = 1, distance = 7\<rparr>, \<lparr>ox = 6, oy = 2, distance = 7\<rparr>, \<lparr>ox = 6, oy = 3, distance = 7\<rparr>,
     \<lparr>ox = 6, oy = 4, distance = 8\<rparr>, \<lparr>ox = 6, oy = 5, distance = 8\<rparr>, \<lparr>ox = 6, oy = 6, distance = 9\<rparr>,
     \<lparr>ox = 6, oy = 7, distance = 10\<rparr>, \<lparr>ox = 6, oy = 8, distance = 10\<rparr>, \<lparr>ox = 7, oy = - 7, distance = 10\<rparr>,
     \<lparr>ox = 7, oy = - 6, distance = 10\<rparr>, \<lparr>ox = 7, oy = - 5, distance = 9\<rparr>, \<lparr>ox = 7, oy = - 4, distance = 9\<rparr>,
     \<lparr>ox = 7, oy = - 3, distance = 8\<rparr>, \<lparr>ox = 7, oy = - 2, distance = 8\<rparr>, \<lparr>ox = 7, oy = - 1, distance = 8\<rparr>,
     \<lparr>ox = 7, oy = 0, distance = 7\<rparr>, \<lparr>ox = 7, oy = 1, distance = 8\<rparr>, \<lparr>ox = 7, oy = 2, distance = 8\<rparr>,
     \<lparr>ox = 7, oy = 3, distance = 8\<rparr>, \<lparr>ox = 7, oy = 4, distance = 9\<rparr>, \<lparr>ox = 7, oy = 5, distance = 9\<rparr>,
     \<lparr>ox = 7, oy = 6, distance = 10\<rparr>, \<lparr>ox = 7, oy = 7, distance = 10\<rparr>, \<lparr>ox = 8, oy = - 6, distance = 10\<rparr>,
     \<lparr>ox = 8, oy = - 5, distance = 10\<rparr>, \<lparr>ox = 8, oy = - 4, distance = 9\<rparr>, \<lparr>ox = 8, oy = - 3, distance = 9\<rparr>,
     \<lparr>ox = 8, oy = - 2, distance = 9\<rparr>, \<lparr>ox = 8, oy = - 1, distance = 9\<rparr>, \<lparr>ox = 8, oy = 0, distance = 8\<rparr>,
     \<lparr>ox = 8, oy = 1, distance = 9\<rparr>, \<lparr>ox = 8, oy = 2, distance = 9\<rparr>, \<lparr>ox = 8, oy = 3, distance = 9\<rparr>,
     \<lparr>ox = 8, oy = 4, distance = 9\<rparr>, \<lparr>ox = 8, oy = 5, distance = 10\<rparr>, \<lparr>ox = 8, oy = 6, distance = 10\<rparr>,
     \<lparr>ox = 9, oy = - 4, distance = 10\<rparr>, \<lparr>ox = 9, oy = - 3, distance = 10\<rparr>, \<lparr>ox = 9, oy = - 2, distance = 10\<rparr>,
     \<lparr>ox = 9, oy = - 1, distance = 10\<rparr>, \<lparr>ox = 9, oy = 0, distance = 9\<rparr>, \<lparr>ox = 9, oy = 1, distance = 10\<rparr>,
     \<lparr>ox = 9, oy = 2, distance = 10\<rparr>, \<lparr>ox = 9, oy = 3, distance = 10\<rparr>, \<lparr>ox = 9, oy = 4, distance = 10\<rparr>,
     \<lparr>ox = 10, oy = 0, distance = 10\<rparr>]"
  by code_simp

lemma neighborOffsets_unit:
  "filter (\<lambda>off. \<not> distance off > 1) neighborOffsets = unitOffsets"
  by (simp add: neighborOffsets_table unitOffsets_def)

lemma visitOffset_far:
  assumes "distance off > maxDistance \<or> (enableJumping = 0 \<and> distance off > 1)"
  shows "visitOffset sdfCells unitSize sdfFactor enableJumping node cellSdf maxDistance st off = Inr st"
  using assms unfolding visitOffset_def Let_def by (simp only: if_True)

lemma visitOffsets_unit_filter:
  assumes "maxDistance = 1 \<or> (enableJumping = 0 \<and> 1 \<le> maxDistance)"
  shows "visitOffsets sdfCells unitSize sdfFactor enableJumping node cellSdf maxDistance st offs =
   visitOffsets sdfCells unitSize sdfFactor enableJumping node cellSdf maxDistance st
     (filter (\<lambda>off. \<not> distance off > 1) offs)"
proof (induction offs arbitrary: st)
  case Nil
  show ?case by simp
next
  case (Cons off offs)
  show ?case
  proof (cases "distance off > 1")
    case True
    then have "distance off > maxDistance \<or> (enableJumping = 0 \<and> distance off > 1)"
      using assms by auto
    from visitOffset_far [OF this] True Cons.IH show ?thesis by simp
  next
    case False
    then show ?thesis using Cons.IH by (simp split: sum.splits)
  qed
qed

lemma visitOffsets_unit:
  assumes "maxDistance = 1 \<or> (enableJumping = 0 \<and> 1 \<le> maxDistance)"
  shows "visitOffsets sdfCells unitSize sdfFactor enableJumping node cellSdf maxDistance st neighborOffsets =
   visitOffsets sdfCells unitSize sdfFactor enableJumping node cellSdf maxDistance st unitOffsets"
  using visitOffsets_unit_filter [OF assms, of sdfCells unitSize sdfFactor node cellSdf st neighborOffsets]
  by (simp only: neighborOffsets_unit)

declare followFrom.simps [simp del]

lemma searchInv_mapInv:
  "searchInv sdfCells unitSize enableJumping startX startY st \<Longrightarrow>
   mapInv sdfCells unitSize enableJumping startX startY (nodeMap st)"
  by (simp add: searchInv_def mapInv_def)

lemma followFrom_walk:
  assumes "mapInv sdfCells unitSize enableJumping startX startY m" and "inGrid x y"
  shows "\<exists>p. followFrom m startX startY x y path = Inr (path @ p) \<and> chainFrom m x y p \<and>
           (\<forall>e\<in>set p. 0 < score e \<and> inGrid (nx e) (ny e) \<and> (nx e \<noteq> startX \<or> ny e \<noteq> startY)
               \<and> inGrid (fromX e) (fromY e)) \<and>
           (p = [] \<longleftrightarrow> \<not> (score (m (y * gridWidth + x)) > 0 \<and> (x \<noteq> startX \<or> y \<noteq> startY)
                           \<and> int (length path) < gridWidth * gridHeight)) \<and>
           int (length (path @ p)) \<le> max (int (length path)) (gridWidth * gridHeight)"
  using assms
proof (induction m startX startY x y path rule: followFrom.induct)
  case (1 m startX startY x y path)
  let ?e = "m (y * gridWidth + x)"
  have v: "validIndex (y * gridWidth + x)" by (rule inGrid_validIndex [OF "1.prems"(2)])
  show ?case
  proof (cases "score ?e > 0 \<and> (x \<noteq> startX \<or> y \<noteq> startY)
              \<and> int (length path) < gridWidth * gridHeight")
    case False
    then have "followFrom m startX startY x y path = Inr path"
      using v by (subst followFrom.simps) auto
    with False show ?thesis by (intro exI [of _ "[]"]) auto
  next
    case True
    then have lk: "linked sdfCells unitSize enableJumping startX startY ?e x y"
      using "1.prems" by (auto simp: mapInv_def)
    with True have e: "nx ?e = x" "ny ?e = y" "inGrid (fromX ?e) (fromY ?e)"
      by (auto simp: linked_def)
    from "1.IH" [OF _ _ "1.prems"(1) e(3)] v True obtain p where
      p: "followFrom m startX startY (fromX ?e) (fromY ?e) (path @ [?e]) = Inr ((path @ [?e]) @ p)"
        "chainFrom m (fromX ?e) (fromY ?e) p"
        "\<forall>e\<in>set p. 0 < score e \<and> inGrid (nx e) (ny e) \<and> (nx e \<noteq> startX \<or> ny e \<noteq> startY)
               \<and> inGrid (fromX e) (fromY e)"
        "int (length ((path @ [?e]) @ p)) \<le> max (int (length (path @ [?e]))) (gridWidth * gridHeight)"
      by auto
    have "followFrom m startX startY x y path = Inr (path @ (?e # p))"
      using v True p(1) by (subst followFrom.simps) auto
    moreover have "chainFrom m x y (?e # p)" using p(2) by simp
    moreover have "\<forall>e\<in>set (?e # p). 0 < score e \<and> inGrid (nx e) (ny e)
        \<and> (nx e \<noteq> startX \<or> ny e \<noteq> startY) \<and> inGrid (fromX e) (fromY e)"
      using p(3) True e "1.prems" by auto
    moreover have "int (length (path @ (?e # p))) \<le> max (int (length path)) (gridWidth * gridHeight)"
      using p(4) True by auto
    ultimately show ?thesis using True by (intro exI [of _ "?e # p"]) auto
  qed
qed

lemma searchLoop_step:
  "queue st \<noteq> [] \<Longrightarrow> expandLowest sdfCells unitSize sdfFactor enableJumping st = Inr st' \<Longrightarrow>
   searchLoop sdfCells unitSize sdfFactor enableJumping st =
   searchLoop sdfCells unitSize sdfFactor enableJumping st'"
  by (subst searchLoop.simps) simp

lemma searchLoop_done:
  "queue st = [] \<Longrightarrow> searchLoop sdfCells unitSize sdfFactor enableJumping st = Some (Inr st)"
  by (subst searchLoop.simps) simp

lemmas eval_simps = expandLowest_def Let_def lowestScoreIndex_def dequeueAt_def validIndex_def
  gridWidth_def gridHeight_def visitOffsets_unit unitOffsets_def visitOffset_def c_div_def

lemma e1: "expandLowest sdfAB 1 0 1 stAB0 = Inr stAB1"
  by (simp add: stAB0_def stAB1_def initialState_def eval_simps sdfAB_def emptyMap_def)

lemma e2: "expandLowest sdfAB 1 0 1 stAB1 = Inr (stAB1\<lparr>queue := []\<rparr>)"
  by (simp add: stAB0_def stAB1_def initialState_def eval_simps sdfAB_def emptyMap_def)

lemma loopAB: "searchLoop sdfAB 1 0 1 (initialState emptyMap 0 0) = Some (Inr (stAB1\<lparr>queue := []\<rparr>))"
proof -
  have "searchLoop sdfAB 1 0 1 stAB0 = searchLoop sdfAB 1 0 1 stAB1"
    by (rule searchLoop_step [OF _ e1]) (simp add: stAB0_def initialState_def)
  also have "\<dots> = searchLoop sdfAB 1 0 1 (stAB1\<lparr>queue := []\<rparr>)"
    by (rule searchLoop_step [OF _ e2]) (simp add: stAB1_def)
  also have "\<dots> = Some (Inr (stAB1\<lparr>queue := []\<rparr>))"
    by (rule searchLoop_done) simp
  finally show ?thesis by (simp add: stAB0_def)
qed

lemma followAB: "followFrom (nodeMap stAB1) 0 0 1 0 [] = Inr [\<lparr>nx = 1, ny = 0, fromX = 0, fromY = 0, score = 2\<rparr>]"
  apply (subst followFrom.simps)
  apply (simp add: stAB1_def stAB0_def initialState_def validIndex_def gridWidth_def gridHeight_def)
  apply (subst followFrom.simps)
  apply (simp add: stAB1_def stAB0_def initialState_def validIndex_def gridWidth_def gridHeight_def)
  done

lemma FindPath_cases:
  assumes "inGrid startX startY"
    and "FindPath sdfCells m toX toY startX startY unitSize sdfFactor enableJumping = Some res"
  obtains st where
    "searchLoop sdfCells unitSize sdfFactor enableJumping (initialState m startX startY) = Some (Inr st)"
    "searchInv sdfCells unitSize enableJumping startX startY st"
    "queue st = []"
    "res = reconstruct st toX toY startX startY"
proof -
  have v: "validIndex (startY * gridWidth + startX)" by (rule inGrid_validIndex [OF assms(1)])
  from assms(2) v obtain lr where
    lr: "searchLoop sdfCells unitSize sdfFactor enableJumping (initialState m startX startY) = Some lr"
    by (auto simp: FindPath_def split: option.splits)
  from searchLoop_searchInv [OF lr searchInv_initialState [OF assms(1)]] obtain st where
    st: "lr = Inr st" "searchInv sdfCells unitSize enableJumping startX startY st" "queue st = []"
    by blast
  have "res = reconstruct st toX toY startX startY"
    using assms(2) v lr st(1) by (simp add: FindPath_def)
  with lr st that show thesis by blast
qed

lemma reconstruct_found:
  assumes "mapInv sdfCells unitSize enableJumping startX startY (nodeMap st)"
    and "inGrid toX toY" and "0 < score (nodeMap st (toY * gridWidth + toX))"
  shows "\<exists>p. reconstruct st toX toY startX startY =
            Inr \<lparr>resultMap = nodeMap st,
                 resultPath = p @ [nodeMap st (startY * gridWidth + startX)],
                 pathLength = int (length p) + 1,
                 resultOverflow = overflowLogged st\<rparr> \<and>
           chainFrom (nodeMap st) toX toY p \<and>
           (\<forall>e\<in>set p. 0 < score e \<and> inGrid (nx e) (ny e) \<and> (nx e \<noteq> startX \<or> ny e \<noteq> startY)
               \<and> inGrid (fromX e) (fromY e)) \<and>
           (p = [] \<longleftrightarrow> toX = startX \<and> toY = startY) \<and>
           int (length p) \<le> gridWidth * gridHeight"
proof -
  have pos: "0 < gridWidth * gridHeight" by (simp add: gridWidth_def gridHeight_def)
  from followFrom_walk [OF assms(1,2), of "[]"] obtain p where
    p: "followFrom (nodeMap st) startX startY toX toY [] = Inr p" "chainFrom (nodeMap st) toX toY p"
      "\<forall>e\<in>set p. 0 < score e \<and> inGrid (nx e) (ny e) \<and> (nx e \<noteq> startX \<or> ny e \<noteq> startY)
               \<and> inGrid (fromX e) (fromY e)"
      "p = [] \<longleftrightarrow> \<not> (score (nodeMap st (toY * gridWidth + toX)) > 0 \<and> (toX \<noteq> startX \<or> toY \<noteq> startY)
                           \<and> int (length ([]::PathfindingNode list)) < gridWidth * gridHeight)"
      "int (length p) \<le> max (int (length ([]::PathfindingNode list))) (gridWidth * gridHeight)"
    by auto
  have "p = [] \<longleftrightarrow> toX = startX \<and> toY = startY" using p(4) assms(3) pos by auto
  moreover have "int (length p) \<le> gridWidth * gridHeight" using p(5) pos by simp
  moreover have "reconstruct st toX toY startX startY =
            Inr \<lparr>resultMap = nodeMap st,
                 resultPath = p @ [nodeMap st (startY * gridWidth + startX)],
                 pathLength = int (length p) + 1,
                 resultOverflow = overflowLogged st\<rparr>"
    using p(1) assms(3) inGrid_validIndex [OF assms(2)] by (simp add: reconstruct_def)
  ultimately show ?thesis using p(2,3) by blast
qed

lemma reconstruct_none:
  assumes "inGrid toX toY" and "\<not> 0 < score (nodeMap st (toY * gridWidth + toX))"
  shows "reconstruct st toX toY startX startY =
            Inr \<lparr>resultMap = nodeMap st, resultPath = [], pathLength = 0,
                 resultOverflow = overflowLogged st\<rparr>"
  using assms inGrid_validIndex [OF assms(1)] by (simp add: reconstruct_def)

text \<open>
  C4: FindPath never aborts on a grid start and goal; when it returns, \<open>*pathLength\<close> is
  positive exactly when the goal's score in the map is positive, and a goal whose score is
  not positive leaves \<open>*pathLength = 0\<close> and no path element.
\<close>

theorem C4_success_iff_goal_score:
  assumes "inGrid startX startY" and "inGrid toX toY"
    and "FindPath sdfCells m toX toY startX startY unitSize sdfFactor enableJumping = Some res"
  shows "\<exists>r. res = Inr r \<and>
           (0 < pathLength r \<longleftrightarrow> 0 < score (resultMap r (toY * gridWidth + toX))) \<and>
           (\<not> 0 < score (resultMap r (toY * gridWidth + toX)) \<longrightarrow>
              pathLength r = 0 \<and> resultPath r = [])"
proof -
  from FindPath_cases [OF assms(1,3)] obtain st where
    st: "searchInv sdfCells unitSize enableJumping startX startY st"
        "res = reconstruct st toX toY startX startY"
    by blast
  show ?thesis
  proof (cases "0 < score (nodeMap st (toY * gridWidth + toX))")
    case True
    from reconstruct_found [OF searchInv_mapInv [OF st(1)] assms(2) True]
    show ?thesis using st(2) True by auto
  next
    case False
    from reconstruct_none [OF assms(2) False]
    show ?thesis using st(2) False by auto
  qed
qed

lemma inGrid_00: "inGrid 0 0" by (simp add: inGrid_def gridWidth_def gridHeight_def)

lemma inGrid_10: "inGrid 1 0" by (simp add: inGrid_def gridWidth_def gridHeight_def)

lemma FindPath_AB: "FindPath sdfAB emptyMap 1 0 0 0 1 0 1 = Some (Inr resultAB)"
proof -
  have "reconstruct (stAB1\<lparr>queue := []\<rparr>) 1 0 0 0 = Inr resultAB"
    using followAB
    by (simp add: reconstruct_def resultAB_def validIndex_def gridWidth_def gridHeight_def
        stAB1_def stAB0_def initialState_def)
  then show ?thesis using loopAB
    by (simp add: FindPath_def validIndex_def gridWidth_def gridHeight_def)
qed

theorem C4_success_iff_goal_score_witness:
  "inGrid 0 0 \<and> inGrid 1 0 \<and> FindPath sdfAB emptyMap 1 0 0 0 1 0 1 = Some (Inr resultAB) \<and>
   (0 < pathLength resultAB \<longleftrightarrow> 0 < score (resultMap resultAB (0 * gridWidth + 1)))"
  using C4_success_iff_goal_score [OF inGrid_00 inGrid_10 FindPath_AB] inGrid_00 inGrid_10 FindPath_AB
  by simp

lemma chain_entries:
  assumes "mapInv sdfCells unitSize enableJumping startX startY m"
  shows "inGrid x y \<Longrightarrow> chainFrom m x y p \<Longrightarrow>
         (\<forall>e\<in>set p. 0 < score e \<and> inGrid (fromX e) (fromY e)) \<Longrightarrow>
         (\<forall>e\<in>set p. e = m (ny e * gridWidth + nx e) \<and> inGrid (nx e) (ny e) \<and>
            linked sdfCells unitSize enableJumping startX startY e (nx e) (ny e))"
proof (induction p arbitrary: x y)
  case Nil
  show ?case by simp
next
  case (Cons e p)
  have e: "e = m (y * gridWidth + x)" using Cons.prems(2) by simp
  have ch: "chainFrom m (fromX e) (fromY e) p" using Cons.prems(2) by auto
  have "0 < score e" "inGrid (fromX e) (fromY e)" using Cons.prems(3) by simp_all
  then have lk: "linked sdfCells unitSize enableJumping startX startY e x y"
    using assms Cons.prems(1) e by (auto simp: mapInv_def)
  then have xy: "nx e = x" "ny e = y" by (simp_all add: linked_def)
  have rest: "\<forall>e\<in>set p. e = m (ny e * gridWidth + nx e) \<and> inGrid (nx e) (ny e) \<and>
            linked sdfCells unitSize enableJumping startX startY e (nx e) (ny e)"
    by (rule Cons.IH [OF \<open>inGrid (fromX e) (fromY e)\<close> ch]) (use Cons.prems(3) in simp)
  show ?case using rest lk xy e Cons.prems(1) by auto
qed

lemma linked_clearance:
  assumes "linked sdfCells unitSize enableJumping startX startY e x y"
  shows "(x = startX \<and> y = startY) \<or> unitSize \<le> sdfCells (y * gridWidth + x)"
  using assms by (auto simp: linked_def stepAllowed_def)

lemma FindPath_found:
  assumes "inGrid startX startY" and "inGrid toX toY"
    and "FindPath sdfCells m toX toY startX startY unitSize sdfFactor enableJumping = Some (Inr r)"
    and "0 < score (resultMap r (toY * gridWidth + toX))"
  obtains st p where
    "searchLoop sdfCells unitSize sdfFactor enableJumping (initialState m startX startY) = Some (Inr st)"
    "searchInv sdfCells unitSize enableJumping startX startY st"
    "queue st = []"
    "r = \<lparr>resultMap = nodeMap st,
          resultPath = p @ [nodeMap st (startY * gridWidth + startX)],
          pathLength = int (length p) + 1,
          resultOverflow = overflowLogged st\<rparr>"
    "chainFrom (nodeMap st) toX toY p"
    "\<forall>e\<in>set p. 0 < score e \<and> inGrid (nx e) (ny e) \<and> (nx e \<noteq> startX \<or> ny e \<noteq> startY)
               \<and> inGrid (fromX e) (fromY e)"
    "p = [] \<longleftrightarrow> toX = startX \<and> toY = startY"
    "int (length p) \<le> gridWidth * gridHeight"
proof -
  from FindPath_cases [OF assms(1,3)] obtain st where
    st: "searchLoop sdfCells unitSize sdfFactor enableJumping (initialState m startX startY) = Some (Inr st)"
        "searchInv sdfCells unitSize enableJumping startX startY st" "queue st = []"
        "Inr r = reconstruct st toX toY startX startY"
    by blast
  have pos: "0 < score (nodeMap st (toY * gridWidth + toX))"
  proof (rule ccontr)
    assume n: "\<not> 0 < score (nodeMap st (toY * gridWidth + toX))"
    from reconstruct_none [OF assms(2) n, of startX startY] st(4) assms(4) n show False by simp
  qed
  from reconstruct_found [OF searchInv_mapInv [OF st(2)] assms(2) pos] obtain p where
    p: "reconstruct st toX toY startX startY =
            Inr \<lparr>resultMap = nodeMap st,
                 resultPath = p @ [nodeMap st (startY * gridWidth + startX)],
                 pathLength = int (length p) + 1,
                 resultOverflow = overflowLogged st\<rparr>"
       "chainFrom (nodeMap st) toX toY p"
       "\<forall>e\<in>set p. 0 < score e \<and> inGrid (nx e) (ny e) \<and> (nx e \<noteq> startX \<or> ny e \<noteq> startY)
               \<and> inGrid (fromX e) (fromY e)"
       "p = [] \<longleftrightarrow> toX = startX \<and> toY = startY"
       "int (length p) \<le> gridWidth * gridHeight"
    by blast
  have "Inr r = (Inr \<lparr>resultMap = nodeMap st,
          resultPath = p @ [nodeMap st (startY * gridWidth + startX)],
          pathLength = int (length p) + 1,
          resultOverflow = overflowLogged st\<rparr> :: error + SearchResult)"
    by (rule trans [OF st(4) p(1)])
  then have "r = \<lparr>resultMap = nodeMap st,
          resultPath = p @ [nodeMap st (startY * gridWidth + startX)],
          pathLength = int (length p) + 1,
          resultOverflow = overflowLogged st\<rparr>"
    by (simp only: sum.inject)
  from that [OF st(1,2,3) this p(2,3,4,5)] show thesis .
qed

text \<open>
  C1 (amended): in a successful search every cell of the reconstructed path other than the
  start cell has a clearance of at least \<open>unitSize\<close>. The start cell is seeded without any
  clearance test.
\<close>

theorem C1_path_clearance:
  assumes "inGrid startX startY" and "inGrid toX toY"
    and "FindPath sdfCells m toX toY startX startY unitSize sdfFactor enableJumping = Some (Inr r)"
    and "0 < score (resultMap r (toY * gridWidth + toX))"
  shows "\<forall>e\<in>set (resultPath r).
           (nx e = startX \<and> ny e = startY) \<or> unitSize \<le> sdfCells (ny e * gridWidth + nx e)"
proof -
  obtain st p where
    lp: "searchLoop sdfCells unitSize sdfFactor enableJumping (initialState m startX startY) = Some (Inr st)"
    and st: "searchInv sdfCells unitSize enableJumping startX startY st"
    and qe: "queue st = []"
    and r: "r = \<lparr>resultMap = nodeMap st,
          resultPath = p @ [nodeMap st (startY * gridWidth + startX)],
          pathLength = int (length p) + 1,
          resultOverflow = overflowLogged st\<rparr>"
    and ch: "chainFrom (nodeMap st) toX toY p"
    and en: "\<forall>e\<in>set p. 0 < score e \<and> inGrid (nx e) (ny e) \<and> (nx e \<noteq> startX \<or> ny e \<noteq> startY)
               \<and> inGrid (fromX e) (fromY e)"
    and emp: "p = [] \<longleftrightarrow> toX = startX \<and> toY = startY"
    and len: "int (length p) \<le> gridWidth * gridHeight"
    by (rule FindPath_found [OF assms])
  have lk: "\<forall>e\<in>set p. e = nodeMap st (ny e * gridWidth + nx e) \<and> inGrid (nx e) (ny e) \<and>
            linked sdfCells unitSize enableJumping startX startY e (nx e) (ny e)"
    by (rule chain_entries [OF searchInv_mapInv [OF st] assms(2) ch]) (use en in simp)
  have s: "nx (nodeMap st (startY * gridWidth + startX)) = startX"
          "ny (nodeMap st (startY * gridWidth + startX)) = startY"
    using st by (simp_all add: searchInv_def)
  show ?thesis
  proof
    fix e assume "e \<in> set (resultPath r)"
    then have "e \<in> set p \<or> e = nodeMap st (startY * gridWidth + startX)" by (auto simp: r)
    then show "(nx e = startX \<and> ny e = startY) \<or> unitSize \<le> sdfCells (ny e * gridWidth + nx e)"
    proof
      assume "e \<in> set p"
      with lk have "linked sdfCells unitSize enableJumping startX startY e (nx e) (ny e)" by simp
      from linked_clearance [OF this] show ?thesis .
    next
      assume "e = nodeMap st (startY * gridWidth + startX)"
      with s show ?thesis by simp
    qed
  qed
qed

lemma score_goal_AB: "0 < score (resultMap resultAB (0 * gridWidth + 1))"
  by (simp add: resultAB_def stAB1_def)

theorem C1_path_clearance_witness:
  "inGrid 0 0 \<and> inGrid 1 0 \<and> FindPath sdfAB emptyMap 1 0 0 0 1 0 1 = Some (Inr resultAB) \<and>
   0 < score (resultMap resultAB (0 * gridWidth + 1)) \<and>
   ((nx (resultPath resultAB ! 0) = 0 \<and> ny (resultPath resultAB ! 0) = 0) \<or>
    1 \<le> sdfAB (ny (resultPath resultAB ! 0) * gridWidth + nx (resultPath resultAB ! 0)))"
proof -
  have "\<forall>e\<in>set (resultPath resultAB).
           (nx e = 0 \<and> ny e = 0) \<or> 1 \<le> sdfAB (ny e * gridWidth + nx e)"
    by (rule C1_path_clearance [OF inGrid_00 inGrid_10 FindPath_AB score_goal_AB])
  then have "(nx (resultPath resultAB ! 0) = 0 \<and> ny (resultPath resultAB ! 0) = 0) \<or>
    1 \<le> sdfAB (ny (resultPath resultAB ! 0) * gridWidth + nx (resultPath resultAB ! 0))"
    by (rule bspec) (simp add: resultAB_def)
  then show ?thesis using inGrid_00 inGrid_10 FindPath_AB score_goal_AB by blast
qed

lemma expand_blocked:
  "expandLowest sdfBlocked 1 0 1 stAB0 = Inr (stAB0\<lparr>queue := []\<rparr>)"
  by (simp add: stAB0_def initialState_def eval_simps sdfBlocked_def emptyMap_def)

lemma FindPath_blocked: "FindPath sdfBlocked emptyMap 0 0 0 0 1 0 1 = Some (Inr resultBlocked)"
proof -
  have "searchLoop sdfBlocked 1 0 1 stAB0 = searchLoop sdfBlocked 1 0 1 (stAB0\<lparr>queue := []\<rparr>)"
    by (rule searchLoop_step [OF _ expand_blocked]) (simp add: stAB0_def initialState_def)
  also have "\<dots> = Some (Inr (stAB0\<lparr>queue := []\<rparr>))"
    by (rule searchLoop_done) simp
  finally have l: "searchLoop sdfBlocked 1 0 1 (initialState emptyMap 0 0) = Some (Inr (stAB0\<lparr>queue := []\<rparr>))"
    by (simp add: stAB0_def)
  have f: "followFrom (nodeMap stAB0) 0 0 0 0 [] = Inr []"
    by (subst followFrom.simps)
       (simp add: stAB0_def initialState_def validIndex_def gridWidth_def gridHeight_def)
  have "reconstruct (stAB0\<lparr>queue := []\<rparr>) 0 0 0 0 = Inr resultBlocked"
    using f
    by (simp add: reconstruct_def resultBlocked_def validIndex_def gridWidth_def gridHeight_def
        stAB0_def initialState_def)
  then show ?thesis using l
    by (simp add: FindPath_def validIndex_def gridWidth_def gridHeight_def)
qed

text \<open>
  C1 as stated fails on a grid whose cells are all blocked (clearance 0 everywhere), with
  start and goal on the same cell and \<open>unitSize = 1\<close>: the search succeeds and the path
  holds the start cell, whose clearance is 0.
\<close>

theorem C1_counterexample:
  "FindPath sdfBlocked emptyMap 0 0 0 0 1 0 1 = Some (Inr resultBlocked) \<and>
   0 < score (resultMap resultBlocked (0 * gridWidth + 0)) \<and>
   \<not> (\<forall>e\<in>set (resultPath resultBlocked). 1 \<le> sdfBlocked (ny e * gridWidth + nx e))"
  using FindPath_blocked
  by (simp add: resultBlocked_def stAB0_def initialState_def sdfBlocked_def)







































lemma reachedState_trans:
  assumes "reachedState sdfCells unitSize sdfFactor enableJumping s t"
  shows "reachedState sdfCells unitSize sdfFactor enableJumping st0 s \<Longrightarrow>
         reachedState sdfCells unitSize sdfFactor enableJumping st0 t"
  using assms
proof (induction rule: reachedState.induct)
  case init
  then show ?case .
next
  case (step t t')
  from reachedState.step [OF step.IH [OF step.prems] step.hyps(2,3)] show ?case .
qed


























text \<open>When the queue is empty and nothing was dropped, every cell that can be reached is visited.\<close>

lemma reachable_visited:
  assumes fr: "freshInv sdfCells unitSize sdfFactor enableJumping sf" and q: "queue sf = []"
    and sinv: "searchInv sdfCells unitSize enableJumping startX startY sf"
    and s1: "score (nodeMap sf (startY * gridWidth + startX)) \<noteq> 0"
    and r: "reachableCell sdfCells unitSize enableJumping startX startY x y"
  shows "inGrid x y \<and> score (nodeMap sf (y * gridWidth + x)) \<noteq> 0"
  using r
proof (induction rule: reachableCell.induct)
  case start
  show ?case using sinv s1 by (simp add: searchInv_def)
next
  case (step x y off)
  from fr step.IH have "freshOrRelaxed sdfCells unitSize sdfFactor enableJumping sf x y"
    by (simp add: freshInv_def)
  then have "relaxedOn sdfCells unitSize sdfFactor enableJumping (nodeMap sf)
       (score (nodeMap sf (y * gridWidth + x))) x y UNIV"
    using q by (simp add: freshOrRelaxed_def)
  with step.hyps(2) show ?case by (auto simp: relaxedOn_def stepAllowed_def)
qed

lemma stepAllowed_antitone:
  assumes "unitSize \<le> unitSize'" and "stepAllowed sdfCells unitSize' enableJumping x y off"
  shows "stepAllowed sdfCells unitSize enableJumping x y off"
  using assms unfolding stepAllowed_def by (auto split: if_splits)

lemma reachableCell_antitone:
  assumes "unitSize \<le> unitSize'"
    and "reachableCell sdfCells unitSize' enableJumping startX startY x y"
  shows "reachableCell sdfCells unitSize enableJumping startX startY x y"
  using assms(2)
proof (induction rule: reachableCell.induct)
  case start
  show ?case by (rule reachableCell.start)
next
  case (step x y off)
  from reachableCell.step [OF step.IH stepAllowed_antitone [OF assms(1) step.hyps(2)]]
  show ?case .
qed










lemma ceilSqrt_le: "ceilSqrt K n \<le> K"
  by (induction K) simp_all

lemma ceilSqrt_pred: "ceilSqrt K n = Suc k \<Longrightarrow> k * k < n"
  by (induction K) (simp_all split: if_splits)

lemma ceilSqrt_upper: "n \<le> K * K \<Longrightarrow> n \<le> ceilSqrt K n * ceilSqrt K n"
  by (induction K) (simp_all)

lemma ceilSqrt_lower: "k * k < n \<Longrightarrow> k < K \<Longrightarrow> k < ceilSqrt K n"
proof (induction K)
  case 0
  then show ?case by simp
next
  case (Suc K)
  show ?case
  proof (cases "K * K < n")
    case True
    then show ?thesis using Suc.prems by simp
  next
    case False
    have "k < K"
    proof (rule ccontr)
      assume "\<not> k < K"
      then have "K \<le> k" by simp
      then have "K * K \<le> k * k" by (simp add: mult_le_mono)
      with Suc.prems(1) False show False by simp
    qed
    with Suc.IH [OF Suc.prems(1)] False show ?thesis by simp
  qed
qed

lemma ceilSqrt_unique:
  assumes "n \<le> K * K" "n \<le> K' * K'"
  shows "ceilSqrt K n = ceilSqrt K' n"
proof -
  have a: "ceilSqrt A n \<le> ceilSqrt B n" if "n \<le> A * A" "n \<le> B * B" for A B
  proof (cases "ceilSqrt A n")
    case 0
    then show ?thesis by simp
  next
    case (Suc k)
    from ceilSqrt_pred [OF Suc] have k: "k * k < n" .
    have "k < B"
    proof (rule ccontr)
      assume "\<not> k < B"
      then have "B \<le> k" by simp
      then have "B * B \<le> k * k" by (simp add: mult_le_mono)
      with k that(2) show False by simp
    qed
    from ceilSqrt_lower [OF k this] Suc show ?thesis by simp
  qed
  from a [OF assms] a [OF assms(2,1)] show ?thesis by simp
qed

lemma isqrt_roundedUpRoot:
  assumes "0 \<le> n" "n \<le> 256"
  shows "isqrt n = roundedUpRoot n"
proof -
  have "nat n \<le> 16 * 16" using assms by simp
  moreover have "nat n \<le> nat n * nat n" by (cases "nat n") simp_all
  ultimately show ?thesis
    unfolding isqrt_def roundedUpRoot_def by (simp only: ceilSqrt_unique [of "nat n" 16 "nat n"])
qed

lemma roundedUpRoot_bounds:
  assumes "0 < n"
  shows "(roundedUpRoot n - 1) * (roundedUpRoot n - 1) < n \<and> n \<le> roundedUpRoot n * roundedUpRoot n"
proof -
  let ?m = "ceilSqrt (nat n) (nat n)"
  have le: "nat n \<le> nat n * nat n" by (cases "nat n") simp_all
  from ceilSqrt_upper [OF le] have up: "nat n \<le> ?m * ?m" .
  have "?m \<noteq> 0"
  proof
    assume "?m = 0"
    with up have "nat n = 0" by simp
    with assms show False by simp
  qed
  then obtain k where k: "?m = Suc k" by (cases ?m) simp_all
  from ceilSqrt_pred [OF k] have lo: "k * k < nat n" .
  have "int (k * k) < n" using lo assms by linarith
  then have "int k * int k < n" by simp
  moreover have "n \<le> int (?m * ?m)" using up by linarith
  then have "n \<le> int ?m * int ?m" by simp
  ultimately show ?thesis by (simp add: roundedUpRoot_def k)
qed

lemma roundedUpRoot_0: "roundedUpRoot 0 = 0"
  by (simp add: roundedUpRoot_def)

lemma roundedUpRoot_far:
  assumes "121 \<le> n"
  shows "11 \<le> roundedUpRoot n"
proof -
  have "(10::nat) * 10 < nat n" "(10::nat) < nat n" using assms by simp_all
  from ceilSqrt_lower [OF this] show ?thesis by (simp add: roundedUpRoot_def)
qed

lemma square_bound:
  fixes d :: int
  shows "\<bar>d\<bar> \<le> 10 \<Longrightarrow> d * d \<le> 100" and "11 \<le> \<bar>d\<bar> \<Longrightarrow> 121 \<le> d * d"
proof -
  have e: "d * d = \<bar>d\<bar> * \<bar>d\<bar>" by simp
  show "d * d \<le> 100" if "\<bar>d\<bar> \<le> 10"
    using mult_mono [of "\<bar>d\<bar>" 10 "\<bar>d\<bar>" 10] that unfolding e by simp
  show "121 \<le> d * d" if "11 \<le> \<bar>d\<bar>"
    using mult_mono [of 11 "\<bar>d\<bar>" 11 "\<bar>d\<bar>"] that unfolding e by simp
qed

lemma sdfDistance_cellMetric:
  assumes "sdfFunction \<in> {0, 1, 2}" "\<bar>dx\<bar> \<le> 10" "\<bar>dy\<bar> \<le> 10"
  shows "sdfDistance sdfFunction dx dy = cellMetric sdfFunction dx dy"
proof -
  have "dx * dx + dy * dy \<le> 256" "0 \<le> dx * dx + dy * dy"
    using square_bound(1) [OF assms(2)] square_bound(1) [OF assms(3)] by simp_all
  from isqrt_roundedUpRoot [OF this(2,1)] show ?thesis
    using assms(1) by (auto simp: sdfDistance_def cellMetric_def)
qed

lemma cellMetric_far:
  assumes "sdfFunction \<in> {0, 1, 2}" "11 \<le> \<bar>dx\<bar> \<or> 11 \<le> \<bar>dy\<bar>"
  shows "11 \<le> cellMetric sdfFunction dx dy"
proof -
  have a: "0 \<le> dx * dx" "0 \<le> dy * dy" by simp_all
  consider "11 \<le> \<bar>dx\<bar>" | "11 \<le> \<bar>dy\<bar>" using assms(2) by blast
  then have "121 \<le> dx * dx + dy * dy"
  proof cases
    case 1
    from square_bound(2) [OF 1] a(2) show ?thesis by linarith
  next
    case 2
    from square_bound(2) [OF 2] a(1) show ?thesis by linarith
  qed
  from roundedUpRoot_far [OF this] show ?thesis
    using assms by (auto simp: cellMetric_def)
qed

lemma cellMetric_nonneg:
  assumes "sdfFunction \<in> {0, 1, 2}"
  shows "0 \<le> cellMetric sdfFunction dx dy"
  using assms by (auto simp: cellMetric_def roundedUpRoot_def)

lemma cellMetric_self:
  assumes "sdfFunction \<in> {0, 1, 2}"
  shows "cellMetric sdfFunction 0 0 = 0"
  using assms by (auto simp: cellMetric_def roundedUpRoot_0)

lemma foldl_upd_other:
  "\<forall>a\<in>set cs. key a \<noteq> k \<Longrightarrow> foldl (\<lambda>s a. s(key a := g a (s (key a)))) s cs k = s k"
  by (induction cs arbitrary: s) auto

lemma foldl_upd_hit:
  assumes "distinct cs" "inj_on key (set cs)" "a \<in> set cs"
  shows "foldl (\<lambda>s a. s(key a := g a (s (key a)))) s cs (key a) = g a (s (key a))"
  using assms
proof (induction cs arbitrary: s)
  case Nil
  then show ?case by simp
next
  case (Cons c cs)
  show ?case
  proof (cases "a = c")
    case True
    have "\<forall>b\<in>set cs. key b \<noteq> key c" using Cons.prems(1,2) by (auto simp: inj_on_def)
    from foldl_upd_other [OF this, of g "s(key c := g c (s (key c)))"] True
    show ?thesis by (simp only: foldl_Cons fun_upd_same)
  next
    case False
    with Cons.prems have a: "a \<in> set cs" by simp
    have ne: "key a \<noteq> key c" using Cons.prems(2) a False by (auto simp: inj_on_def)
    have "distinct cs" "inj_on key (set cs)" using Cons.prems by (simp_all add: inj_on_def)
    from Cons.IH [OF this a, of "s(key c := g c (s (key c)))"] ne
    show ?thesis by (simp only: foldl_Cons fun_upd_other not_False_eq_True simp_thms)
  qed
qed

lemma foldl_cellsOf:
  "foldl (\<lambda>s j. foldl (\<lambda>s i. F s (i, j)) s xs) s ys = foldl F s (cellsOf xs ys)"
  by (induction ys arbitrary: s) (simp_all add: cellsOf_def foldl_map)

lemma set_cellsOf: "set (cellsOf xs ys) = set xs \<times> set ys"
  by (auto simp: cellsOf_def)

lemma distinct_cellsOf: "distinct xs \<Longrightarrow> distinct ys \<Longrightarrow> distinct (cellsOf xs ys)"
proof (induction ys)
  case Nil
  then show ?case by (simp add: cellsOf_def)
next
  case (Cons y ys)
  have "cellsOf xs (y # ys) = map (\<lambda>x. (x, y)) xs @ cellsOf xs ys" by (simp add: cellsOf_def)
  moreover have "distinct (map (\<lambda>x. (x, y)) xs)" using Cons.prems(1) by (simp add: distinct_map inj_on_def)
  moreover have "distinct (cellsOf xs ys)" using Cons by simp
  moreover have "set (map (\<lambda>x. (x, y)) xs) \<inter> set (cellsOf xs ys) = {}"
    using Cons.prems(2) by (auto simp: set_cellsOf)
  ultimately show ?case by simp
qed

lemma cellKey_inj_on:
  assumes "\<forall>c\<in>C. inGrid (fst c) (snd c)"
  shows "inj_on cellKey C"
proof (rule inj_onI)
  fix a b assume ab: "a \<in> C" "b \<in> C" "cellKey a = cellKey b"
  from assms ab(1,2) have "inGrid (fst a) (snd a)" "inGrid (fst b) (snd b)" by simp_all
  from cellIndex_inj [OF this] ab(3) show "a = b" by (simp add: cellKey_def prod_eq_iff)
qed

lemma splatCell_upd:
  "splatCell f x y j s i = s(cellKey (i, j) := splatValue f x y (i, j) (s (cellKey (i, j))))"
  by (simp add: splatCell_def splatValue_def cellKey_def Let_def)

lemma splat_window:
  "foldl (splatRow f x y minX maxX) s [minY..maxY] =
   foldl (\<lambda>s c. s(cellKey c := splatValue f x y c (s (cellKey c)))) s (cellsOf [minX..maxX] [minY..maxY])"
proof -
  have "splatRow f x y minX maxX =
        (\<lambda>s j. foldl (\<lambda>s i. (\<lambda>s c. s(cellKey c := splatValue f x y c (s (cellKey c)))) s (i, j)) s [minX..maxX])"
  proof (rule ext, rule ext)
    fix s j
    have "splatCell f x y j = (\<lambda>s i. s(cellKey (i, j) := splatValue f x y (i, j) (s (cellKey (i, j)))))"
      by (simp only: splatCell_upd [symmetric])
    then show "splatRow f x y minX maxX s j =
        foldl (\<lambda>s i. (\<lambda>s c. s(cellKey c := splatValue f x y c (s (cellKey c)))) s (i, j)) s [minX..maxX]"
      by (simp only: splatRow_def)
  qed
  then show ?thesis
    by (simp only: foldl_cellsOf [where F = "\<lambda>s c. s(cellKey c := splatValue f x y c (s (cellKey c)))"])
qed

lemma updateCell_free:
  "blockedCells (y * gridWidth + x) \<noteq> 1 \<Longrightarrow> updateCell blockedCells sdfFunction y sdf x = sdf"
  by (simp add: updateCell_def)

lemma updateCell_blocked:
  assumes f: "sdfFunction \<in> {0, 1, 2}" and w: "inGrid x y" and c: "inGrid i j"
    and b: "blockedCells (y * gridWidth + x) = 1"
    and r: "0 \<le> sdf (j * gridWidth + i)" "sdf (j * gridWidth + i) \<le> 10"
  shows "updateCell blockedCells sdfFunction y sdf x (j * gridWidth + i)
         = min (sdf (j * gridWidth + i)) (cellMetric sdfFunction (x - i) (y - j))"
proof -
  define minX where "minX = (if x - 10 < 0 then 0 else x - 10)"
  define minY where "minY = (if y - 10 < 0 then 0 else y - 10)"
  define maxX where "maxX = (if x + 10 \<ge> gridWidth then gridWidth - 1 else x + 10)"
  define maxY where "maxY = (if y + 10 \<ge> gridHeight then gridHeight - 1 else y + 10)"
  define sdf0 where "sdf0 = sdf(y * gridWidth + x := 0)"
  define W where "W = cellsOf [minX..maxX] [minY..maxY]"
  let ?step = "\<lambda>s c. s(cellKey c := splatValue sdfFunction x y c (s (cellKey c)))"
  have upd: "updateCell blockedCells sdfFunction y sdf x = foldl ?step sdf0 W"
    using b by (simp add: updateCell_def Let_def splat_window minX_def minY_def maxX_def maxY_def sdf0_def W_def)
  have xb: "0 \<le> minX" "maxX < gridWidth" "x - 10 \<le> minX" "maxX \<le> x + 10" "minX \<le> x" "x \<le> maxX"
    using w by (auto simp: minX_def maxX_def inGrid_def)
  have yb: "0 \<le> minY" "maxY < gridHeight" "y - 10 \<le> minY" "maxY \<le> y + 10" "minY \<le> y" "y \<le> maxY"
    using w by (auto simp: minY_def maxY_def inGrid_def)
  have setW: "set W = {minX..maxX} \<times> {minY..maxY}" by (simp add: W_def set_cellsOf)
  have inW: "\<forall>c\<in>set W. inGrid (fst c) (snd c)"
    using xb(1,2) yb(1,2) by (auto simp: setW inGrid_def)
  have dW: "distinct W" by (simp add: W_def distinct_cellsOf)
  have key: "cellKey (i, j) = j * gridWidth + i" by (simp add: cellKey_def)
  show ?thesis
  proof (cases "(i, j) \<in> set W")
    case True
    from foldl_upd_hit [OF dW cellKey_inj_on [OF inW] True]
    have v: "foldl ?step sdf0 W (cellKey (i, j)) = splatValue sdfFunction x y (i, j) (sdf0 (cellKey (i, j)))" .
    from True have near: "\<bar>x - i\<bar> \<le> 10" "\<bar>y - j\<bar> \<le> 10"
      using xb(3,4) yb(3,4) by (auto simp: setW)
    note d = sdfDistance_cellMetric [OF f near]
    have val: "updateCell blockedCells sdfFunction y sdf x (j * gridWidth + i)
               = splatValue sdfFunction x y (i, j) (sdf0 (j * gridWidth + i))"
      using v by (simp only: upd key)
    have sv: "splatValue sdfFunction x y (i, j) u
              = (if cellMetric sdfFunction (x - i) (y - j) < u \<and> cellMetric sdfFunction (x - i) (y - j) < 10
                 then cellMetric sdfFunction (x - i) (y - j) else u)" for u
      by (simp add: splatValue_def d Let_def)
    show ?thesis
    proof (cases "i = x \<and> j = y")
      case True
      then have "sdf0 (j * gridWidth + i) = 0" by (simp add: sdf0_def)
      moreover have "cellMetric sdfFunction (x - i) (y - j) = 0" using True cellMetric_self [OF f] by simp
      ultimately show ?thesis using r by (simp add: val sv)
    next
      case False
      have "j * gridWidth + i \<noteq> y * gridWidth + x"
        using cellIndex_inj [OF c w] False by blast
      then have "sdf0 (j * gridWidth + i) = sdf (j * gridWidth + i)" by (simp add: sdf0_def)
      then show ?thesis
        using r by (simp add: val sv min_def)
    qed
  next
    case False
    have "\<forall>a\<in>set W. cellKey a \<noteq> j * gridWidth + i"
    proof
      fix a assume a: "a \<in> set W"
      show "cellKey a \<noteq> j * gridWidth + i"
      proof
        assume "cellKey a = j * gridWidth + i"
        then have "snd a * gridWidth + fst a = j * gridWidth + i" by (simp add: cellKey_def)
        from cellIndex_inj [OF _ c this] inW a have "a = (i, j)" by (simp add: prod_eq_iff)
        with a False show False by simp
      qed
    qed
    from foldl_upd_other [OF this]
    have v: "foldl ?step sdf0 W (j * gridWidth + i) = sdf0 (j * gridWidth + i)" .
    have "(x, y) \<in> set W" using xb(5,6) yb(5,6) by (simp add: setW)
    with False have "i \<noteq> x \<or> j \<noteq> y" by auto
    then have "j * gridWidth + i \<noteq> y * gridWidth + x"
      using cellIndex_inj [OF c w] by blast
    then have s0: "sdf0 (j * gridWidth + i) = sdf (j * gridWidth + i)" by (simp add: sdf0_def)
    have far: "11 \<le> \<bar>x - i\<bar> \<or> 11 \<le> \<bar>y - j\<bar>"
      using False c xb(1,2) yb(1,2) by (auto simp: setW inGrid_def minX_def maxX_def minY_def maxY_def split: if_splits)
    have "updateCell blockedCells sdfFunction y sdf x (j * gridWidth + i) = sdf (j * gridWidth + i)"
      using v s0 by (simp only: upd)
    with cellMetric_far [OF f far] r(2) show ?thesis by (simp add: min_def)
  qed
qed

lemma updateSdf_flat:
  "updateSdf blockedCells sdfFunction old =
   foldl (\<lambda>s c. updateCell blockedCells sdfFunction (snd c) s (fst c))
         (\<lambda>i. if validIndex i then 10 else old i) gridCells"
proof -
  have "updateRow blockedCells sdfFunction =
        (\<lambda>s y. foldl (\<lambda>s x. (\<lambda>s c. updateCell blockedCells sdfFunction (snd c) s (fst c)) s (x, y)) s
                       [0..gridWidth - 1])"
  proof (rule ext, rule ext)
    fix s y
    have "updateCell blockedCells sdfFunction y = (\<lambda>s x. updateCell blockedCells sdfFunction y s x)" by simp
    then show "updateRow blockedCells sdfFunction s y =
        foldl (\<lambda>s x. (\<lambda>s c. updateCell blockedCells sdfFunction (snd c) s (fst c)) s (x, y)) s
              [0..gridWidth - 1]"
      by (simp add: updateRow_def)
  qed
  then show ?thesis
    by (simp only: updateSdf_def gridCells_def
          foldl_cellsOf [where F = "\<lambda>s c. updateCell blockedCells sdfFunction (snd c) s (fst c)"])
qed

lemma saturatedMin_bounds:
  assumes "sdfFunction \<in> {0, 1, 2}"
  shows "0 \<le> saturatedMin sdfFunction x y walls" and "saturatedMin sdfFunction x y walls \<le> 10"
proof -
  let ?A = "insert 10 ((\<lambda>b. cellMetric sdfFunction (fst b - x) (snd b - y)) ` set walls)"
  have fin: "finite ?A" "?A \<noteq> {}" by simp_all
  have "\<forall>a\<in>?A. 0 \<le> a" using cellMetric_nonneg [OF assms] by auto
  then have "0 \<le> Min ?A" using Min_ge_iff [OF fin, of 0] by blast
  then show "0 \<le> saturatedMin sdfFunction x y walls"
    by (simp only: saturatedMin_def)
  show "saturatedMin sdfFunction x y walls \<le> 10"
    unfolding saturatedMin_def by (rule Min_le) simp_all
qed

lemma saturatedMin_snoc:
  "saturatedMin sdfFunction x y (walls @ [b])
   = min (saturatedMin sdfFunction x y walls) (cellMetric sdfFunction (fst b - x) (snd b - y))"
proof -
  let ?m = "\<lambda>b. cellMetric sdfFunction (fst b - x) (snd b - y)"
  have "insert 10 (?m ` set (walls @ [b])) = insert (?m b) (insert 10 (?m ` set walls))" by auto
  moreover have "Min (insert (?m b) (insert 10 (?m ` set walls))) = min (?m b) (Min (insert 10 (?m ` set walls)))"
    by (rule Min_insert) simp_all
  ultimately show ?thesis by (simp add: saturatedMin_def min.commute)
qed

lemma build_invariant:
  assumes f: "sdfFunction \<in> {0, 1, 2}"
    and ws: "\<forall>c\<in>set ws. inGrid (fst c) (snd c)"
    and init: "\<forall>i j. inGrid i j \<longrightarrow> s0 (j * gridWidth + i) = 10"
    and c: "inGrid i j"
  shows "foldl (\<lambda>s c. updateCell blockedCells sdfFunction (snd c) s (fst c)) s0 ws (j * gridWidth + i)
         = saturatedMin sdfFunction i j (blockedIn blockedCells ws)"
  using ws
proof (induction ws rule: rev_induct)
  case Nil
  then show ?case using init c by (simp add: saturatedMin_def blockedIn_def)
next
  case (snoc w ws)
  let ?F = "\<lambda>s c. updateCell blockedCells sdfFunction (snd c) s (fst c)"
  let ?s = "foldl ?F s0 ws"
  from snoc have ih: "?s (j * gridWidth + i) = saturatedMin sdfFunction i j (blockedIn blockedCells ws)"
    and w: "inGrid (fst w) (snd w)" by simp_all
  have step: "foldl ?F s0 (ws @ [w]) = updateCell blockedCells sdfFunction (snd w) ?s (fst w)" by simp
  show ?case
  proof (cases "blockedCells (snd w * gridWidth + fst w) = 1")
    case True
    have r: "0 \<le> ?s (j * gridWidth + i)" "?s (j * gridWidth + i) \<le> 10"
      using saturatedMin_bounds [OF f] by (simp_all only: ih)
    from updateCell_blocked [where sdf = ?s and blockedCells = blockedCells, OF f w c True r]
    have "updateCell blockedCells sdfFunction (snd w) ?s (fst w) (j * gridWidth + i)
          = min (?s (j * gridWidth + i)) (cellMetric sdfFunction (fst w - i) (snd w - j))" .
    moreover have "blockedIn blockedCells (ws @ [w]) = blockedIn blockedCells ws @ [w]"
      using True by (simp add: blockedIn_def)
    ultimately show ?thesis by (simp only: step ih saturatedMin_snoc)
  next
    case False
    from updateCell_free [where blockedCells = blockedCells and y = "snd w" and x = "fst w", OF False]
    have "updateCell blockedCells sdfFunction (snd w) ?s (fst w) = ?s" .
    moreover have "blockedIn blockedCells (ws @ [w]) = blockedIn blockedCells ws"
      using False by (simp add: blockedIn_def)
    ultimately show ?thesis by (simp only: step ih)
  qed
qed

lemma set_gridCells: "set gridCells = {c. inGrid (fst c) (snd c)}"
  by (auto simp: gridCells_def set_cellsOf inGrid_def)

lemma set_blockedIn:
  "set (blockedIn blockedCells gridCells)
   = {c. inGrid (fst c) (snd c) \<and> blockedCells (snd c * gridWidth + fst c) = 1}"
  by (auto simp: blockedIn_def set_gridCells)

lemma updateSdf_clearanceSpec:
  assumes "sdfFunction \<in> {0, 1, 2}" "inGrid x y"
  shows "updateSdf blockedCells sdfFunction old (y * gridWidth + x) = clearanceSpec blockedCells sdfFunction x y"
proof -
  have ws: "\<forall>c\<in>set gridCells. inGrid (fst c) (snd c)" by (simp add: set_gridCells)
  have init: "\<forall>i j. inGrid i j \<longrightarrow> (\<lambda>i. if validIndex i then 10 else old i) (j * gridWidth + i) = 10"
    using inGrid_validIndex by simp
  from build_invariant [OF assms(1) ws init assms(2)] show ?thesis
    by (simp only: updateSdf_flat clearanceSpec_def)
qed

lemma clearanceSpec_blocked:
  assumes f: "sdfFunction \<in> {0, 1, 2}" and c: "inGrid x y" and b: "blockedCells (y * gridWidth + x) = 1"
  shows "clearanceSpec blockedCells sdfFunction x y = 0"
proof -
  have "(x, y) \<in> set (blockedIn blockedCells gridCells)" using c b by (simp add: set_blockedIn)
  then have "cellMetric sdfFunction (fst (x, y) - x) (snd (x, y) - y)
        \<in> insert 10 ((\<lambda>b. cellMetric sdfFunction (fst b - x) (snd b - y)) ` set (blockedIn blockedCells gridCells))"
    by blast
  then have "0 \<in> insert 10 ((\<lambda>b. cellMetric sdfFunction (fst b - x) (snd b - y)) ` set (blockedIn blockedCells gridCells))"
    using cellMetric_self [OF f] by simp
  then have "clearanceSpec blockedCells sdfFunction x y \<le> 0"
    unfolding clearanceSpec_def saturatedMin_def by (intro Min_le) simp_all
  with saturatedMin_bounds(1) [OF f, of x y "blockedIn blockedCells gridCells"]
  show ?thesis by (simp add: clearanceSpec_def)
qed

lemma clearanceSpec_far:
  assumes "\<forall>b\<in>set (blockedIn blockedCells gridCells). 10 \<le> cellMetric sdfFunction (fst b - x) (snd b - y)"
  shows "clearanceSpec blockedCells sdfFunction x y = 10"
proof -
  let ?A = "insert 10 ((\<lambda>b. cellMetric sdfFunction (fst b - x) (snd b - y)) ` set (blockedIn blockedCells gridCells))"
  have fin: "finite ?A" "?A \<noteq> {}" by simp_all
  have "\<forall>a\<in>?A. 10 \<le> a" using assms by auto
  then have "10 \<le> Min ?A" using Min_ge_iff [OF fin, of 10] by blast
  moreover have "Min ?A \<le> 10" by (rule Min_le) simp_all
  ultimately have "Min ?A = 10" by linarith
  then show ?thesis by (simp only: clearanceSpec_def saturatedMin_def)
qed

text \<open>
  C2: after the rebuild, the clearance of every cell of the grid is the minimum, over the
  blocked cells of the grid, of the chosen metric (0 rounded-up euclidean, 1 chebyshev,
  2 manhattan) between the cell and the blocked cell, saturated at 10; a blocked cell has
  clearance 0; a cell at distance 10 or more from every blocked cell has clearance 10, so
  that a grid with no blocked cell has clearance 10 everywhere.
\<close>

theorem C2_clearance_is_saturated_minimum:
  assumes "sdfFunction \<in> {0, 1, 2}" and "inGrid x y"
  shows "updateSdf blockedCells sdfFunction old (y * gridWidth + x)
           = Min (insert 10 ((\<lambda>b. cellMetric sdfFunction (fst b - x) (snd b - y))
                                ` {b. inGrid (fst b) (snd b) \<and> blockedCells (snd b * gridWidth + fst b) = 1}))
         \<and> updateSdf blockedCells sdfFunction old (y * gridWidth + x) = clearanceSpec blockedCells sdfFunction x y
         \<and> (blockedCells (y * gridWidth + x) = 1 \<longrightarrow>
              updateSdf blockedCells sdfFunction old (y * gridWidth + x) = 0)
         \<and> ((\<forall>b\<in>set (blockedIn blockedCells gridCells).
                10 \<le> cellMetric sdfFunction (fst b - x) (snd b - y)) \<longrightarrow>
              updateSdf blockedCells sdfFunction old (y * gridWidth + x) = 10)
         \<and> (blockedIn blockedCells gridCells = [] \<longrightarrow>
              updateSdf blockedCells sdfFunction old (y * gridWidth + x) = 10)"
proof -
  note e = updateSdf_clearanceSpec [OF assms, of blockedCells old]
  have "clearanceSpec blockedCells sdfFunction x y
        = Min (insert 10 ((\<lambda>b. cellMetric sdfFunction (fst b - x) (snd b - y))
                                ` {b. inGrid (fst b) (snd b) \<and> blockedCells (snd b * gridWidth + fst b) = 1}))"
    by (simp only: clearanceSpec_def saturatedMin_def set_blockedIn)
  moreover have "blockedCells (y * gridWidth + x) = 1 \<longrightarrow> clearanceSpec blockedCells sdfFunction x y = 0"
    using clearanceSpec_blocked [OF assms] by blast
  moreover have "(\<forall>b\<in>set (blockedIn blockedCells gridCells).
                10 \<le> cellMetric sdfFunction (fst b - x) (snd b - y)) \<longrightarrow>
              clearanceSpec blockedCells sdfFunction x y = 10"
    using clearanceSpec_far by blast
  moreover have "blockedIn blockedCells gridCells = [] \<longrightarrow> clearanceSpec blockedCells sdfFunction x y = 10"
    using clearanceSpec_far [of blockedCells sdfFunction x y] by simp
  ultimately show ?thesis by (simp only: e simp_thms)
qed

lemma blockedIn_wallAtOrigin: "set (blockedIn wallAtOrigin gridCells) = {(0, 0)}"
proof -
  have "c = (0, 0)" if "inGrid (fst c) (snd c)" "snd c * gridWidth + fst c = 0" for c
    using cellIndex_inj [OF that(1) inGrid_00] that(2) by (simp add: prod_eq_iff)
  moreover have "inGrid 0 0" by (rule inGrid_00)
  ultimately show ?thesis by (auto simp: set_blockedIn wallAtOrigin_def)
qed

lemma roundedUpRoot_25: "roundedUpRoot 25 = 5"
  by code_simp

lemma clearanceSpec_wallAtOrigin: "clearanceSpec wallAtOrigin 0 3 4 = 5"
  by (simp add: clearanceSpec_def saturatedMin_def blockedIn_wallAtOrigin cellMetric_def roundedUpRoot_25)

lemma inGrid_34: "inGrid 3 4"
  by (simp add: inGrid_def gridWidth_def gridHeight_def)

theorem C2_clearance_is_saturated_minimum_witness:
  "(0::int) \<in> {0, 1, 2} \<and> inGrid 3 4 \<and> inGrid 0 0 \<and>
   wallAtOrigin (0 * gridWidth + 0) = 1 \<and>
   updateSdf wallAtOrigin 0 (\<lambda>i. 0) (4 * gridWidth + 3) = 5 \<and>
   updateSdf wallAtOrigin 0 (\<lambda>i. 0) (0 * gridWidth + 0) = 0"
proof -
  have f: "(0::int) \<in> {0, 1, 2}" by simp
  have w: "wallAtOrigin (0 * gridWidth + 0) = 1" by (simp add: wallAtOrigin_def)
  from C2_clearance_is_saturated_minimum [OF f inGrid_34, of wallAtOrigin "\<lambda>i. 0"]
  have "updateSdf wallAtOrigin 0 (\<lambda>i. 0) (4 * gridWidth + 3) = clearanceSpec wallAtOrigin 0 3 4"
    by blast
  then have a: "updateSdf wallAtOrigin 0 (\<lambda>i. 0) (4 * gridWidth + 3) = 5"
    by (simp only: clearanceSpec_wallAtOrigin)
  from C2_clearance_is_saturated_minimum [OF f inGrid_00, of wallAtOrigin "\<lambda>i. 0"] w
  have b: "updateSdf wallAtOrigin 0 (\<lambda>i. 0) (0 * gridWidth + 0) = 0" by blast
  from f inGrid_34 inGrid_00 w a b show ?thesis by blast
qed

end
